theory Spec2Isabelle
  imports Complex_Main "HOL-Library.List_Lexorder" "HOL-Library.Char_ord"
begin

section \<open>Numbers, rounding and dictionaries\<close>

text \<open>
  The services compute with Python floats. The development reads a float as the real
  number it stands for, so \<open>+\<close>, \<open>*\<close> and \<open>/\<close> are the exact operations; every
  division of the source is guarded there, and the guard is kept in the model.

  Python's \<^verbatim>\<open>round(x, n)\<close> rounds to \<open>n\<close> decimals, a tie going to the even
  neighbour.
\<close>

definition round_half_even :: "real \<Rightarrow> int" where
  "round_half_even x =
     (let f = \<lfloor>x\<rfloor>; r = x - of_int f
      in if r < 1 / 2 then f
         else if 1 / 2 < r then f + 1
         else if even f then f else f + 1)"

definition py_round :: "real \<Rightarrow> nat \<Rightarrow> real" where
  "py_round x n = of_int (round_half_even (x * 10 ^ n)) / 10 ^ n"

text \<open>
  A Python \<^verbatim>\<open>dict\<close> keeps its keys in insertion order, so it is an association list
  with distinct keys. \<open>dd_modify k f d\<close> is the statement \<^verbatim>\<open>m[k] = f(m[k])\<close> on a
  \<^verbatim>\<open>defaultdict\<close> whose default value is \<open>d\<close>: a key that is there keeps its place,
  a new key goes to the end.
\<close>

fun dd_modify :: "'k \<Rightarrow> ('v \<Rightarrow> 'v) \<Rightarrow> 'v \<Rightarrow> ('k \<times> 'v) list \<Rightarrow> ('k \<times> 'v) list" where
  "dd_modify k f d [] = [(k, f d)]"
| "dd_modify k f d ((k', v) # kvs) =
     (if k = k' then (k', f v) # kvs else (k', v) # dd_modify k f d kvs)"

text \<open>
  \<^verbatim>\<open>xs.sort(key=score, reverse=True)\<close>: descending, and stable (equal keys keep their
  order), which is the stable ascending sort by the negated key.
\<close>

definition sort_desc :: "('a \<Rightarrow> real) \<Rightarrow> 'a list \<Rightarrow> 'a list" where
  "sort_desc key xs = sort_key (\<lambda>x. - key x) xs"

section \<open>Transactions\<close>

text \<open>
  A row of the \<^verbatim>\<open>transactions\<close> table (database.py) with the columns the detection
  services read. \<^verbatim>\<open>to_address\<close> is nullable. Time stamps are seconds.
\<close>

record transaction =
  tx_hash :: string
  block_number :: int
  from_address :: string
  to_address :: "string option"
  value_eth :: real
  timestamp :: real

text \<open>Python's truth value of an optional string: \<^verbatim>\<open>None\<close> and \<^verbatim>\<open>""\<close> are false.\<close>

fun truthy :: "string option \<Rightarrow> bool" where
  "truthy None = False"
| "truthy (Some s) = (s \<noteq> [])"

section \<open>Flash-loan detector (flash\_loan.py)\<close>

record flash_loan_detector =
  value_tolerance :: real
  min_value_eth :: real

text \<open>The singleton \<^verbatim>\<open>FlashLoanDetector()\<close> with the defaults of \<^verbatim>\<open>__init__\<close>.\<close>

definition the_flash_loan_detector :: flash_loan_detector where
  "the_flash_loan_detector = \<lparr>value_tolerance = 5 / 100, min_value_eth = 1\<rparr>"

record flows =
  inflow :: real
  outflow :: real
  tx_hashes :: "string list"

definition no_flows :: flows where
  "no_flows = \<lparr>inflow = 0, outflow = 0, tx_hashes = []\<rparr>"

type_synonym block_wallet = "(int \<times> (string \<times> flows) list) list"

definition add_outflow :: "transaction \<Rightarrow> flows \<Rightarrow> flows" where
  "add_outflow tx fl =
     fl\<lparr>outflow := outflow fl + value_eth tx, tx_hashes := tx_hashes fl @ [tx_hash tx]\<rparr>"

definition add_inflow :: "transaction \<Rightarrow> flows \<Rightarrow> flows" where
  "add_inflow tx fl =
     fl\<lparr>inflow := inflow fl + value_eth tx, tx_hashes := tx_hashes fl @ [tx_hash tx]\<rparr>"

text \<open>One round of the loop \<^verbatim>\<open>for tx in transactions\<close> of \<^verbatim>\<open>detect\<close>.\<close>

definition group_tx :: "block_wallet \<Rightarrow> transaction \<Rightarrow> block_wallet" where
  "group_tx bw tx =
     (let bw1 = dd_modify (block_number tx)
                  (dd_modify (from_address tx) (add_outflow tx) no_flows) [] bw
      in if truthy (to_address tx)
         then dd_modify (block_number tx)
                (dd_modify (the (to_address tx)) (add_inflow tx) no_flows) [] bw1
         else bw1)"

definition group_flows :: "transaction list \<Rightarrow> block_wallet" where
  "group_flows txs = foldl group_tx [] txs"

text \<open>
  An entry of the result list. The list of at most ten transaction hashes (taken from a
  Python \<^verbatim>\<open>set\<close>, whose order is not fixed) and the explanation sentence are left out.
\<close>

record suspect =
  wallet :: string
  sus_block_number :: int
  inflow_eth :: real
  outflow_eth :: real
  value_difference_pct :: real
  flash_loan_score :: real

definition diff_ratio :: "real \<Rightarrow> real \<Rightarrow> real" where
  "diff_ratio inflw outflw =
     (let max_val = max inflw outflw; min_val = min inflw outflw
      in if 0 < max_val then (max_val - min_val) / max_val else 1)"

text \<open>The body of the inner loop: nothing, or the one suspect appended.\<close>

definition check_flows :: "flash_loan_detector \<Rightarrow> int \<Rightarrow> string \<times> flows \<Rightarrow> suspect list" where
  "check_flows det block_num entry =
     (let w = fst entry; inflw = inflow (snd entry); outflw = outflow (snd entry)
      in if inflw < min_value_eth det \<or> outflw < min_value_eth det then []
         else if diff_ratio inflw outflw \<le> value_tolerance det
         then (let score = (1 - diff_ratio inflw outflw) * 100
               in [\<lparr>wallet = w, sus_block_number = block_num,
                    inflow_eth = py_round inflw 6, outflow_eth = py_round outflw 6,
                    value_difference_pct = py_round (diff_ratio inflw outflw * 100) 2,
                    flash_loan_score = py_round score 2\<rparr>])
         else [])"

text \<open>
  \<^verbatim>\<open>detect\<close>, on the rows the query returns (ordered by block number by the database).
\<close>

definition detect :: "flash_loan_detector \<Rightarrow> transaction list \<Rightarrow> suspect list" where
  "detect det txs =
     sort_desc flash_loan_score
       (concat (map (\<lambda>(block_num, wallets). concat (map (check_flows det block_num) wallets))
                    (group_flows txs)))"

definition get_wallet_flash_score :: "flash_loan_detector \<Rightarrow> transaction list \<Rightarrow> string \<Rightarrow> real" where
  "get_wallet_flash_score det txs address =
     (let wallet_detections = filter (\<lambda>d. wallet d = address) (detect det txs)
      in if wallet_detections = [] then 0
         else Max (set (map flash_loan_score wallet_detections)))"

subsection \<open>Notions for the statements about the detector\<close>

definition flows_at :: "block_wallet \<Rightarrow> int \<Rightarrow> string \<Rightarrow> flows option" where
  "flows_at bw b w = (case map_of bw b of None \<Rightarrow> None | Some ws \<Rightarrow> map_of ws w)"

definition bw_ok :: "block_wallet \<Rightarrow> bool" where
  "bw_ok bw \<longleftrightarrow> distinct (map fst bw) \<and> (\<forall>(b, ws) \<in> set bw. distinct (map fst ws))"

text \<open>Scenario A of the specification.\<close>

definition flash_example :: "transaction list" where
  "flash_example =
     [\<lparr>tx_hash = ''h1'', block_number = 100, from_address = ''a'', to_address = Some ''b'',
       value_eth = 10, timestamp = 0\<rparr>,
      \<lparr>tx_hash = ''h2'', block_number = 100, from_address = ''b'', to_address = Some ''a'',
       value_eth = 10, timestamp = 0\<rparr>]"

section \<open>Interaction graph (graph\_analysis.py)\<close>

text \<open>
  The attributes \<^verbatim>\<open>build_graph\<close> puts on an edge: the summed value, the number of
  transactions and the number of distinct blocks.
\<close>

record edge_attrs =
  weight :: real
  count :: nat
  blocks :: nat

text \<open>
  A \<^verbatim>\<open>networkx.DiGraph\<close> keeps a dictionary from each node to the dictionary of its
  successors, both in insertion order; the nodes are the keys of the outer one. The
  dictionary of predecessors that the library keeps beside it holds the same edges and
  is computed from this one where it is read.
\<close>

type_synonym digraph = "(string \<times> (string \<times> edge_attrs) list) list"

definition nodes :: "digraph \<Rightarrow> string list" where
  "nodes g = map fst g"

definition number_of_nodes :: "digraph \<Rightarrow> nat" where
  "number_of_nodes g = length g"

definition adj :: "digraph \<Rightarrow> string \<Rightarrow> (string \<times> edge_attrs) list" where
  "adj g u = (case map_of g u of None \<Rightarrow> [] | Some nbrs \<Rightarrow> nbrs)"

text \<open>\<^verbatim>\<open>G[u][v]\<close> when the edge is there; \<^verbatim>\<open>G.has_edge(u, v)\<close> asks whether it is.\<close>

definition get_edge :: "digraph \<Rightarrow> string \<Rightarrow> string \<Rightarrow> edge_attrs option" where
  "get_edge g u v = map_of (adj g u) v"

definition has_edge :: "digraph \<Rightarrow> string \<Rightarrow> string \<Rightarrow> bool" where
  "has_edge g u v \<longleftrightarrow> get_edge g u v \<noteq> None"

text \<open>
  \<^verbatim>\<open>G.add_edge(u, v, **attrs)\<close>: both end points become nodes if they are not yet,
  \<open>u\<close> first, then the attributes of the edge are set.
\<close>

definition add_node :: "string \<Rightarrow> digraph \<Rightarrow> digraph" where
  "add_node u g = dd_modify u (\<lambda>nbrs. nbrs) [] g"

definition add_edge :: "string \<Rightarrow> string \<Rightarrow> edge_attrs \<Rightarrow> digraph \<Rightarrow> digraph" where
  "add_edge u v attrs g =
     dd_modify u (dd_modify v (\<lambda>_. attrs) attrs) [] (add_node v (add_node u g))"

text \<open>\<^verbatim>\<open>G.edges(data=True)\<close>: node by node, successor by successor.\<close>

definition edges :: "digraph \<Rightarrow> (string \<times> string \<times> edge_attrs) list" where
  "edges g = concat (map (\<lambda>(u, nbrs). map (\<lambda>(v, attrs). (u, v, attrs)) nbrs) g)"

definition number_of_edges :: "digraph \<Rightarrow> nat" where
  "number_of_edges g = length (edges g)"

definition successors :: "digraph \<Rightarrow> string \<Rightarrow> string list" where
  "successors g u = map fst (adj g u)"

definition predecessors :: "digraph \<Rightarrow> string \<Rightarrow> string list" where
  "predecessors g v = filter (\<lambda>u. has_edge g u v) (nodes g)"

text \<open>\<^verbatim>\<open>G.degree(n)\<close> of a directed graph: in-degree plus out-degree.\<close>

definition degree :: "digraph \<Rightarrow> string \<Rightarrow> nat" where
  "degree g n = length (predecessors g n) + length (successors g n)"

text \<open>
  \<^verbatim>\<open>networkx.degree_centrality(G)\<close>, looked up with \<^verbatim>\<open>.get(n, 0)\<close>: every node of a
  graph of at most one node has centrality 1; otherwise the degree divided by the number
  of other nodes.
\<close>

definition degree_centrality :: "digraph \<Rightarrow> string \<Rightarrow> real" where
  "degree_centrality g n =
     (if n \<notin> set (nodes g) then 0
      else if number_of_nodes g \<le> 1 then 1
      else real (degree g n) * (1 / (real (number_of_nodes g) - 1)))"

subsection \<open>build\_graph\<close>

record edge_acc =
  acc_weight :: real
  acc_count :: nat
  acc_blocks :: "int list"

definition no_edge_acc :: edge_acc where
  "no_edge_acc = \<lparr>acc_weight = 0, acc_count = 0, acc_blocks = []\<rparr>"

text \<open>
  One round of the first loop. A transaction without recipient is skipped. The set of
  blocks is a list without repetition.
\<close>

definition add_tx :: "((string \<times> string) \<times> edge_acc) list \<Rightarrow> transaction \<Rightarrow>
    ((string \<times> string) \<times> edge_acc) list" where
  "add_tx edge_data tx =
     (if \<not> truthy (to_address tx) then edge_data
      else dd_modify (from_address tx, the (to_address tx))
             (\<lambda>e. \<lparr>acc_weight = acc_weight e + value_eth tx,
                    acc_count = acc_count e + 1,
                    acc_blocks = List.insert (block_number tx) (acc_blocks e)\<rparr>)
             no_edge_acc edge_data)"

definition edge_of_acc :: "edge_acc \<Rightarrow> edge_attrs" where
  "edge_of_acc e =
     \<lparr>weight = acc_weight e, count = acc_count e, blocks = length (acc_blocks e)\<rparr>"

text \<open>One round of the second loop, over the items of the dictionary.\<close>

fun add_item :: "digraph \<Rightarrow> (string \<times> string) \<times> edge_acc \<Rightarrow> digraph" where
  "add_item g ((src, dst), e) = add_edge src dst (edge_of_acc e) g"

definition build_graph :: "transaction list \<Rightarrow> digraph" where
  "build_graph txs = foldl add_item [] (foldl add_tx [] txs)"

subsection \<open>detect\_wash\_trading\<close>

record wash_pair =
  wallet_a :: string
  wallet_b :: string
  value_a_to_b :: real
  value_b_to_a :: real
  value_similarity :: real
  tx_count_a_to_b :: nat
  tx_count_b_to_a :: nat
  suspicion_score :: real

definition similarity :: "real \<Rightarrow> real \<Rightarrow> real" where
  "similarity val_uv val_vu =
     (let max_val = max val_uv val_vu; min_val = min val_uv val_vu
      in if 0 < max_val then min_val / max_val else 0)"

text \<open>The body of the loop over the edges: nothing, or the one pair appended.\<close>

definition check_edge :: "digraph \<Rightarrow> string \<times> string \<times> edge_attrs \<Rightarrow> wash_pair list" where
  "check_edge g e =
     (case e of (u, v, data_uv) \<Rightarrow>
        (case get_edge g v u of
           None \<Rightarrow> []
         | Some data_vu \<Rightarrow>
             (let val_uv = weight data_uv; val_vu = weight data_vu
              in if val_uv = 0 \<and> val_vu = 0 then []
                 else if 8 / 10 < similarity val_uv val_vu
                 then [\<lparr>wallet_a = u, wallet_b = v,
                        value_a_to_b = py_round val_uv 6,
                        value_b_to_a = py_round val_vu 6,
                        value_similarity = py_round (similarity val_uv val_vu) 4,
                        tx_count_a_to_b = count data_uv,
                        tx_count_b_to_a = count data_vu,
                        suspicion_score =
                          py_round (similarity val_uv val_vu * 50
                            + real (min (count data_uv + count data_vu) 10) * 5) 2\<rparr>]
                 else [])))"

text \<open>\<^verbatim>\<open>tuple(sorted([a, b]))\<close> on two strings.\<close>

definition sorted_pair :: "string \<Rightarrow> string \<Rightarrow> string \<times> string" where
  "sorted_pair a b = (if a \<le> b then (a, b) else (b, a))"

fun dedup :: "(string \<times> string) set \<Rightarrow> wash_pair list \<Rightarrow> wash_pair list" where
  "dedup seen [] = []"
| "dedup seen (p # ps) =
     (let key = sorted_pair (wallet_a p) (wallet_b p)
      in if key \<notin> seen then p # dedup (insert key seen) ps else dedup seen ps)"

definition detect_wash_trading :: "digraph \<Rightarrow> wash_pair list" where
  "detect_wash_trading g =
     sort_desc suspicion_score (dedup {} (concat (map (check_edge g) (edges g))))"

subsection \<open>get\_wallet\_graph\_score\<close>

definition get_wallet_graph_score :: "digraph \<Rightarrow> string \<Rightarrow> real" where
  "get_wallet_graph_score g address =
     (if address \<notin> set (nodes g) then 0
      else
        (let score1 = degree_centrality g address * 30;
             neighbors = remdups (successors g address @ predecessors g address);
             bidirectional =
               length (filter (\<lambda>nbr. has_edge g address nbr \<and> has_edge g nbr address) neighbors);
             score2 = (if neighbors \<noteq> []
                       then score1 + real bidirectional / real (length neighbors) * 40
                       else score1);
             score3 = score2 + real (min (degree g address) 20) * (15 / 10)
         in min (py_round score3 2) 100))"

subsection \<open>Notions for the statements about the graph\<close>

text \<open>
  The invariant of the library's graph object: no node and no successor is listed twice,
  and every successor is a node.
\<close>

definition graph_ok :: "digraph \<Rightarrow> bool" where
  "graph_ok g \<longleftrightarrow>
     distinct (map fst g) \<and>
     (\<forall>(u, nbrs) \<in> set g. distinct (map fst nbrs) \<and> set (map fst nbrs) \<subseteq> set (map fst g))"

text \<open>The transactions that \<open>u\<close> sent to \<open>v\<close>.\<close>

definition sent :: "transaction list \<Rightarrow> string \<Rightarrow> string \<Rightarrow> transaction list" where
  "sent txs u v =
     filter (\<lambda>tx. truthy (to_address tx) \<and> from_address tx = u \<and> to_address tx = Some v) txs"

definition sends :: "transaction \<Rightarrow> string \<Rightarrow> string \<Rightarrow> bool" where
  "sends tx u v \<longleftrightarrow> truthy (to_address tx) \<and> from_address tx = u \<and> to_address tx = Some v"

definition weight_of :: "edge_acc option \<Rightarrow> real" where
  "weight_of eo = (case eo of None \<Rightarrow> 0 | Some e \<Rightarrow> acc_weight e)"

definition count_of :: "edge_acc option \<Rightarrow> nat" where
  "count_of eo = (case eo of None \<Rightarrow> 0 | Some e \<Rightarrow> acc_count e)"

definition blocks_of :: "edge_acc option \<Rightarrow> int list" where
  "blocks_of eo = (case eo of None \<Rightarrow> [] | Some e \<Rightarrow> acc_blocks e)"

definition is_some :: "'a option \<Rightarrow> bool" where
  "is_some x \<longleftrightarrow> x \<noteq> None"

text \<open>
  Two transfers from one wallet to another in two blocks beside a transaction without
  recipient, and a transaction without recipient alone.
\<close>

definition graph_example :: "transaction list" where
  "graph_example =
     [\<lparr>tx_hash = ''h1'', block_number = 1, from_address = ''a'', to_address = Some ''b'',
       value_eth = 5, timestamp = 0\<rparr>,
      \<lparr>tx_hash = ''h2'', block_number = 2, from_address = ''a'', to_address = Some ''b'',
       value_eth = 10, timestamp = 60\<rparr>,
      \<lparr>tx_hash = ''h3'', block_number = 2, from_address = ''c'', to_address = None,
       value_eth = 1, timestamp = 60\<rparr>]"

definition creation_only :: "transaction list" where
  "creation_only =
     [\<lparr>tx_hash = ''h1'', block_number = 1, from_address = ''a'', to_address = None,
       value_eth = 0, timestamp = 0\<rparr>]"

subsection \<open>Notions for the statements about wash trading\<close>

text \<open>The list \<^verbatim>\<open>suspicious_pairs\<close> before the duplicates are removed.\<close>

definition suspicious_pairs :: "digraph \<Rightarrow> wash_pair list" where
  "suspicious_pairs g = concat (map (check_edge g) (edges g))"

text \<open>The entry written for the edge from \<open>u\<close> to \<open>v\<close> and its reverse edge.\<close>

definition pair_of :: "string \<Rightarrow> string \<Rightarrow> edge_attrs \<Rightarrow> edge_attrs \<Rightarrow> wash_pair" where
  "pair_of u v data_uv data_vu =
     \<lparr>wallet_a = u, wallet_b = v,
      value_a_to_b = py_round (weight data_uv) 6,
      value_b_to_a = py_round (weight data_vu) 6,
      value_similarity = py_round (similarity (weight data_uv) (weight data_vu)) 4,
      tx_count_a_to_b = count data_uv,
      tx_count_b_to_a = count data_vu,
      suspicion_score =
        py_round (similarity (weight data_uv) (weight data_vu) * 50
          + real (min (count data_uv + count data_vu) 10) * 5) 2\<rparr>"

definition pair_key :: "wash_pair \<Rightarrow> string \<times> string" where
  "pair_key p = sorted_pair (wallet_a p) (wallet_b p)"

text \<open>The two wallets of an entry as an unordered pair.\<close>

definition wallets :: "wash_pair \<Rightarrow> string set" where
  "wallets p = {wallet_a p, wallet_b p}"

text \<open>A wallet that sends to itself.\<close>

definition self_loop_example :: "transaction list" where
  "self_loop_example =
     [\<lparr>tx_hash = ''h1'', block_number = 1, from_address = ''u'', to_address = Some ''u'',
       value_eth = 2, timestamp = 0\<rparr>]"

section \<open>Feature extraction and the anomaly model (ml\_engine.py)\<close>

subsection \<open>extract\_features\<close>

text \<open>What the first loop collects for a wallet.\<close>

record wallet_acc =
  sent_values :: "real list"
  received_values :: "real list"
  counterparties :: "string list"
  timestamps :: "real list"
  tx_blocks :: "(int \<times> nat) list"

definition no_wallet_acc :: wallet_acc where
  "no_wallet_acc =
     \<lparr>sent_values = [], received_values = [], counterparties = [], timestamps = [],
      tx_blocks = []\<rparr>"

text \<open>\<^verbatim>\<open>receiver = tx.to_address or ""\<close>\<close>

definition receiver_of :: "transaction \<Rightarrow> string" where
  "receiver_of tx = (case to_address tx of None \<Rightarrow> [] | Some r \<Rightarrow> r)"

definition sender_stats :: "transaction \<Rightarrow> wallet_acc \<Rightarrow> wallet_acc" where
  "sender_stats tx w =
     w\<lparr>sent_values := sent_values w @ [value_eth tx],
       counterparties := (if receiver_of tx \<noteq> [] then List.insert (receiver_of tx) (counterparties w)
                          else counterparties w),
       timestamps := timestamps w @ [timestamp tx],
       tx_blocks := dd_modify (block_number tx) (\<lambda>n. n + 1) 0 (tx_blocks w)\<rparr>"

definition receiver_stats :: "transaction \<Rightarrow> wallet_acc \<Rightarrow> wallet_acc" where
  "receiver_stats tx w =
     w\<lparr>received_values := received_values w @ [value_eth tx],
       counterparties := List.insert (from_address tx) (counterparties w),
       timestamps := timestamps w @ [timestamp tx],
       tx_blocks := dd_modify (block_number tx) (\<lambda>n. n + 1) 0 (tx_blocks w)\<rparr>"

text \<open>One round of the loop over the transactions.\<close>

definition collect_tx :: "(string \<times> wallet_acc) list \<Rightarrow> transaction \<Rightarrow> (string \<times> wallet_acc) list" where
  "collect_tx wallet_data tx =
     (let wd1 = dd_modify (from_address tx) (sender_stats tx) no_wallet_acc wallet_data
      in if receiver_of tx \<noteq> []
         then dd_modify (receiver_of tx) (receiver_stats tx) no_wallet_acc wd1
         else wd1)"

text \<open>The dictionary \<^verbatim>\<open>profile\<close> of a wallet.\<close>

record profile =
  address :: string
  tx_count :: nat
  total_value_sent :: real
  total_value_received :: real
  avg_value :: real
  unique_counterparties :: nat
  inflow_outflow_ratio :: real
  tx_frequency :: real
  burst_score :: real

text \<open>
  \<^verbatim>\<open>max(blocks.values())\<close> of a dictionary that is not empty; the counts are naturals, so
  the maximum from 0 is the maximum.
\<close>

definition max_values :: "(int \<times> nat) list \<Rightarrow> nat" where
  "max_values bs = foldr max (map snd bs) 0"

text \<open>The body of the second loop, for one item of the dictionary.\<close>

definition profile_of :: "string \<times> wallet_acc \<Rightarrow> profile" where
  "profile_of item =
     (let addr = fst item; d = snd item;
          total_sent = (if sent_values d \<noteq> [] then sum_list (sent_values d) else 0);
          total_received = (if received_values d \<noteq> [] then sum_list (received_values d) else 0);
          txc = length (sent_values d) + length (received_values d);
          avg = (total_sent + total_received) / real (max txc 1);
          unique_cp = length (counterparties d);
          inflw = (if 0 < total_received then total_received else 1 / 1000);
          outflw = (if 0 < total_sent then total_sent else 1 / 1000);
          io_ratio = inflw / outflw;
          tx_freq =
            (if 2 \<le> length (timestamps d)
             then (let sorted_ts = sort (timestamps d);
                       span_hours = max ((last sorted_ts - hd sorted_ts) / 3600) (1 / 100)
                   in real txc / span_hours)
             else 0);
          burst = (if tx_blocks d \<noteq> [] then max_values (tx_blocks d) else 0)
      in \<lparr>address = addr, tx_count = txc, total_value_sent = total_sent,
           total_value_received = total_received, avg_value = avg,
           unique_counterparties = unique_cp, inflow_outflow_ratio = io_ratio,
           tx_frequency = tx_freq, burst_score = real burst\<rparr>)"

definition feature_row :: "profile \<Rightarrow> real list" where
  "feature_row p =
     [real (tx_count p), total_value_sent p, total_value_received p, avg_value p,
      real (unique_counterparties p), inflow_outflow_ratio p, tx_frequency p, burst_score p]"

text \<open>
  \<^verbatim>\<open>extract_features\<close>, on the rows the query returns (ordered by time stamp): the
  addresses, the feature matrix and the profiles.
\<close>

definition extract_features :: "transaction list \<Rightarrow> string list \<times> real list list \<times> profile list" where
  "extract_features txs =
     (if txs = [] then ([], [], [])
      else (let wallet_data = foldl collect_tx [] txs;
                raw_profiles = map profile_of wallet_data
            in (map fst wallet_data, map feature_row raw_profiles, raw_profiles)))"

subsection \<open>train and predict\<close>

text \<open>
  The scaler, the isolation forest and the clustering are scikit-learn's. They enter as
  parameters: \<open>fit X k\<close> fits the three on the feature matrix, with \<open>k\<close> clusters, and
  gives the fitted state; from that state and a matrix, \<open>forest_predict\<close> gives the labels
  (-1 for an anomaly), \<open>decision_function\<close> the raw scores and \<open>kmeans_predict\<close> the
  clusters, one per row.
\<close>

record 'm sklearn =
  fit :: "real list list \<Rightarrow> nat \<Rightarrow> 'm"
  forest_predict :: "'m \<Rightarrow> real list list \<Rightarrow> int list"
  decision_function :: "'m \<Rightarrow> real list list \<Rightarrow> real list"
  kmeans_predict :: "'m \<Rightarrow> real list list \<Rightarrow> int list"

text \<open>The engine: the fitted state and the flag \<^verbatim>\<open>_is_trained\<close>.\<close>

record 'm ml_engine =
  fitted :: 'm
  is_trained :: bool

datatype train_result = Insufficient_data nat | Trained nat nat

text \<open>\<open>n_clusters\<close> is the setting \<^verbatim>\<open>N_CLUSTERS\<close> of config.py (5 unless the environment says otherwise).\<close>

definition train :: "'m sklearn \<Rightarrow> nat \<Rightarrow> 'm ml_engine \<Rightarrow> transaction list \<Rightarrow>
    train_result \<times> 'm ml_engine" where
  "train sk n_clusters eng txs =
     (case extract_features txs of (addresses, X, raw_profiles) \<Rightarrow>
        if length addresses < 5 then (Insufficient_data (length addresses), eng)
        else (let effective_k = min n_clusters (length addresses)
              in (Trained (length addresses) effective_k,
                  \<lparr>fitted = fit sk X effective_k, is_trained = True\<rparr>)))"

record prediction = profile +
  is_anomaly :: bool
  anomaly_score :: real
  cluster_label :: int

text \<open>\<^verbatim>\<open>numpy.clip(x, 0, 100)\<close>\<close>

definition clip_0_100 :: "real \<Rightarrow> real" where
  "clip_0_100 x = min (max x 0) 100"

definition predict :: "'m sklearn \<Rightarrow> nat \<Rightarrow> 'm ml_engine \<Rightarrow> transaction list \<Rightarrow>
    prediction list \<times> 'm ml_engine" where
  "predict sk n_clusters eng txs =
     (case extract_features txs of (addresses, X, raw_profiles) \<Rightarrow>
        if length addresses < 5 then ([], eng)
        else
          (let eng1 = (if \<not> is_trained eng then snd (train sk n_clusters eng txs) else eng);
               anomaly_labels = forest_predict sk (fitted eng1) X;
               anomaly_scores_raw = decision_function sk (fitted eng1) X;
               min_score = Min (set anomaly_scores_raw);
               max_score = Max (set anomaly_scores_raw);
               score_range = (if max_score \<noteq> min_score then max_score - min_score else 1);
               anomaly_scores =
                 map (\<lambda>raw. clip_0_100 ((max_score - raw) / score_range * 100)) anomaly_scores_raw;
               cluster_labels = kmeans_predict sk (fitted eng1) X
           in (map (\<lambda>(p, label, score, cluster).
                      profile.extend p
                        \<lparr>is_anomaly = (label = - 1), anomaly_score = py_round score 2,
                         cluster_label = cluster\<rparr>)
                 (zip raw_profiles (zip anomaly_labels (zip anomaly_scores cluster_labels))),
               eng1)))"

subsection \<open>Notions for the statements about the features\<close>

text \<open>The values a wallet sent and received, in the order of the transactions.\<close>

definition values_sent :: "transaction list \<Rightarrow> string \<Rightarrow> real list" where
  "values_sent txs a = map value_eth (filter (\<lambda>tx. from_address tx = a) txs)"

definition values_received :: "transaction list \<Rightarrow> string \<Rightarrow> real list" where
  "values_received txs a =
     map value_eth (filter (\<lambda>tx. receiver_of tx \<noteq> [] \<and> receiver_of tx = a) txs)"

text \<open>The wallets of a transaction set: the senders and the recipients that are not empty.\<close>

definition participants :: "transaction list \<Rightarrow> string set" where
  "participants txs =
     from_address ` set txs \<union> {r. r \<noteq> [] \<and> r \<in> receiver_of ` set txs}"

definition sent_of :: "wallet_acc option \<Rightarrow> real list" where
  "sent_of x = (case x of None \<Rightarrow> [] | Some w \<Rightarrow> sent_values w)"

definition received_of :: "wallet_acc option \<Rightarrow> real list" where
  "received_of x = (case x of None \<Rightarrow> [] | Some w \<Rightarrow> received_values w)"

text \<open>A wallet that receives less than the threshold 0.001.\<close>

definition dust_example :: "transaction list" where
  "dust_example =
     [\<lparr>tx_hash = ''h1'', block_number = 1, from_address = ''a'', to_address = Some ''b'',
       value_eth = 1, timestamp = 0\<rparr>,
      \<lparr>tx_hash = ''h2'', block_number = 2, from_address = ''b'', to_address = Some ''a'',
       value_eth = 1 / 2000, timestamp = 60\<rparr>]"

section \<open>The stored tables and the risk engine (database.py, risk\_engine.py)\<close>

text \<open>
  The rows of \<^verbatim>\<open>wallet_profiles\<close>, \<^verbatim>\<open>risk_scores\<close> and \<^verbatim>\<open>alerts\<close>, with the columns the
  engine writes. The columns filled from the clock and those never written by the engine
  are left out.
\<close>

record wallet_profile = profile +
  profile_cluster_label :: int
  risk_score :: real

datatype severity = Critical | High | Medium | Low

datatype alert_type = Anomaly | Flash_loan | Wash_trade | High_centrality

text \<open>
  The explanation is a sentence for each component above its trigger, joined by "; ";
  here it is the list of these components with the score the sentence shows. The empty
  list stands for "No significant risk factors detected."
\<close>

datatype factor =
  ML_anomaly_high real | Graph_connectivity real | Flash_loan_activity real | Wash_trading real

record risk_score_row =
  rs_wallet_address :: string
  rs_composite_score :: real
  rs_ml_anomaly_score :: real
  rs_graph_score :: real
  rs_flash_loan_score :: real
  rs_wash_trade_score :: real
  rs_explanation :: "factor list"

record alert =
  al_wallet_address :: string
  al_alert_type :: alert_type
  al_severity :: severity
  al_risk_score :: real
  al_explanation :: "factor list"

record db =
  transactions :: "transaction list"
  wallet_profiles :: "wallet_profile list"
  risk_scores :: "risk_score_row list"
  alerts :: "alert list"

text \<open>
  \<^verbatim>\<open>row = query.filter_by(...).first()\<close>, a new row added when there is none, then the
  columns set: the first row that matches is rewritten in place, or the new row goes to
  the end.
\<close>

fun upsert :: "('a \<Rightarrow> bool) \<Rightarrow> ('a \<Rightarrow> 'a) \<Rightarrow> 'a \<Rightarrow> 'a list \<Rightarrow> 'a list" where
  "upsert P f fresh [] = [f fresh]"
| "upsert P f fresh (x # xs) = (if P x then f x # xs else x # upsert P f fresh xs)"

subsection \<open>update\_wallet\_profiles\<close>

definition profile_row :: "prediction \<Rightarrow> wallet_profile" where
  "profile_row pred =
     profile.extend (profile.truncate pred)
       \<lparr>profile_cluster_label = cluster_label pred, risk_score = anomaly_score pred\<rparr>"

definition update_wallet_profiles :: "db \<Rightarrow> prediction list \<Rightarrow> db" where
  "update_wallet_profiles d predictions =
     foldl (\<lambda>d pred.
        d\<lparr>wallet_profiles :=
            upsert (\<lambda>row. address row = address pred) (\<lambda>_. profile_row pred) (profile_row pred)
              (wallet_profiles d)\<rparr>)
       d predictions"

subsection \<open>compute\_risk\<close>

record risk_weights =
  ml_anomaly :: real
  graph_suspicion :: real
  flash_loan :: real
  wash_trade :: real

text \<open>\<^verbatim>\<open>RISK_WEIGHTS\<close> of config.py.\<close>

definition RISK_WEIGHTS :: risk_weights where
  "RISK_WEIGHTS =
     \<lparr>ml_anomaly = 35 / 100, graph_suspicion = 25 / 100, flash_loan = 20 / 100,
      wash_trade = 20 / 100\<rparr>"

text \<open>The dictionary that \<^verbatim>\<open>compute_risk\<close> returns.\<close>

record risk =
  wallet_address :: string
  composite_score :: real
  ml_anomaly_score :: real
  graph_score :: real
  risk_flash_loan_score :: real
  wash_trade_score :: real
  risk_severity :: severity
  explanation :: "factor list"

text \<open>The loop over the wash pairs, from \<^verbatim>\<open>wash_score = 0.0\<close>.\<close>

definition wash_score_of :: "wash_pair list \<Rightarrow> string \<Rightarrow> real" where
  "wash_score_of wash_pairs addr =
     foldl (\<lambda>wash_score pair.
              if wallet_a pair = addr \<or> wallet_b pair = addr
              then max wash_score (suspicion_score pair) else wash_score)
       0 wash_pairs"

text \<open>The weighted sum, rounded and capped.\<close>

definition composite_of :: "risk_weights \<Rightarrow> real \<Rightarrow> real \<Rightarrow> real \<Rightarrow> real \<Rightarrow> real" where
  "composite_of w ml_score graph_sc flash_score wash_score =
     min (py_round (ml_anomaly w * ml_score + graph_suspicion w * graph_sc
                    + flash_loan w * flash_score + wash_trade w * wash_score) 2) 100"

definition severity_of :: "real \<Rightarrow> severity" where
  "severity_of composite =
     (if 75 \<le> composite then Critical
      else if 50 \<le> composite then High
      else if 25 \<le> composite then Medium
      else Low)"

definition explanations_of :: "real \<Rightarrow> real \<Rightarrow> real \<Rightarrow> real \<Rightarrow> factor list" where
  "explanations_of ml_score graph_sc flash_score wash_score =
     (if 50 < ml_score then [ML_anomaly_high ml_score] else []) @
     (if 30 < graph_sc then [Graph_connectivity graph_sc] else []) @
     (if 50 < flash_score then [Flash_loan_activity flash_score] else []) @
     (if 40 < wash_score then [Wash_trading wash_score] else [])"

text \<open>
  \<^verbatim>\<open>compute_risk\<close>. The graph is the one the graph analyser holds; the flash-loan
  detector reads the transactions ordered by block number. The result is the dictionary
  returned and the database after the risk score is stored.
\<close>

definition compute_risk :: "digraph \<Rightarrow> flash_loan_detector \<Rightarrow> db \<Rightarrow> string \<Rightarrow> risk \<times> db" where
  "compute_risk g det d addr =
     (let ml_score = (case find (\<lambda>p. address p = addr) (wallet_profiles d) of
                        None \<Rightarrow> 0 | Some p \<Rightarrow> risk_score p);
          graph_sc = get_wallet_graph_score g addr;
          flash_score = get_wallet_flash_score det (sort_key block_number (transactions d)) addr;
          wash_score = wash_score_of (detect_wash_trading g) addr;
          composite = composite_of RISK_WEIGHTS ml_score graph_sc flash_score wash_score;
          expl = explanations_of ml_score graph_sc flash_score wash_score;
          sev = severity_of composite;
          result = \<lparr>wallet_address = addr, composite_score = composite,
                    ml_anomaly_score = py_round ml_score 2,
                    graph_score = py_round graph_sc 2,
                    risk_flash_loan_score = py_round flash_score 2,
                    wash_trade_score = py_round wash_score 2,
                    risk_severity = sev, explanation = expl\<rparr>;
          stored = \<lparr>rs_wallet_address = addr, rs_composite_score = composite,
                    rs_ml_anomaly_score = ml_score, rs_graph_score = graph_sc,
                    rs_flash_loan_score = flash_score, rs_wash_trade_score = wash_score,
                    rs_explanation = expl\<rparr>
      in (result,
          d\<lparr>risk_scores :=
              upsert (\<lambda>row. rs_wallet_address row = addr) (\<lambda>_. stored) stored (risk_scores d)\<rparr>))"

subsection \<open>detect\_cycles and compute\_centrality (graph\_analysis.py)\<close>

text \<open>
  The enumeration of simple cycles and the betweenness centrality are networkx's and
  enter as parameters.
\<close>

record networkx =
  simple_cycles :: "digraph \<Rightarrow> string list list"
  betweenness_centrality :: "digraph \<Rightarrow> nat \<Rightarrow> string \<Rightarrow> real"

text \<open>The loop of \<^verbatim>\<open>detect_cycles\<close>, which stops at 200 cycles kept.\<close>

fun keep_cycles :: "nat \<Rightarrow> string list list \<Rightarrow> string list list \<Rightarrow> string list list" where
  "keep_cycles max_length cycles [] = cycles"
| "keep_cycles max_length cycles (c # cs) =
     (let cycles1 = (if 2 \<le> length c \<and> length c \<le> max_length then cycles @ [c] else cycles)
      in if 200 \<le> length cycles1 then cycles1 else keep_cycles max_length cycles1 cs)"

definition detect_cycles :: "networkx \<Rightarrow> digraph \<Rightarrow> nat \<Rightarrow> string list list" where
  "detect_cycles nx g max_length = keep_cycles max_length [] (simple_cycles nx g)"

record central =
  central_address :: string
  central_degree :: real
  central_betweenness :: real
  centrality_score :: real

definition compute_centrality :: "networkx \<Rightarrow> digraph \<Rightarrow> nat \<Rightarrow> central list" where
  "compute_centrality nx g top_n =
     (if number_of_nodes g = 0 then []
      else
        (let between = betweenness_centrality nx g (min 50 (number_of_nodes g));
             combined =
               map (\<lambda>node.
                      \<lparr>central_address = node,
                       central_degree = py_round (degree_centrality g node) 4,
                       central_betweenness = py_round (between node) 4,
                       centrality_score =
                         py_round ((degree_centrality g node * (6 / 10)
                                    + between node * (4 / 10)) * 100) 2\<rparr>)
                 (nodes g)
         in take top_n (sort_desc centrality_score combined)))"

subsection \<open>run\_full\_detection\<close>

record summary =
  ml_training :: train_result
  wallets_profiled :: nat
  graph_nodes :: nat
  graph_edges :: nat
  cycles_detected :: nat
  wash_trade_pairs :: nat
  flash_loan_events :: nat
  high_centrality_wallets :: nat
  alerts_generated :: nat

definition alert_type_of :: "risk \<Rightarrow> alert_type" where
  "alert_type_of r =
     (if 50 < risk_flash_loan_score r then Flash_loan
      else if 40 < wash_trade_score r then Wash_trade
      else if 30 < graph_score r then High_centrality
      else Anomaly)"

text \<open>One round of the loop over the profiles.\<close>

definition score_profile :: "digraph \<Rightarrow> flash_loan_detector \<Rightarrow> db \<times> nat \<Rightarrow> wallet_profile \<Rightarrow> db \<times> nat" where
  "score_profile g det state p =
     (case compute_risk g det (fst state) (address p) of (r, d1) \<Rightarrow>
        if 40 \<le> composite_score r
        then (d1\<lparr>alerts := alerts d1 @
                  [\<lparr>al_wallet_address = address p, al_alert_type = alert_type_of r,
                    al_severity = risk_severity r, al_risk_score = composite_score r,
                    al_explanation = explanation r\<rparr>]\<rparr>,
              snd state + 1)
        else (d1, snd state))"

text \<open>
  \<^verbatim>\<open>run_full_detection\<close>. The state is the fitted engine, the graph of the analyser and
  the database; the feature extraction reads the transactions ordered by time stamp.
\<close>

definition run_full_detection ::
    "'m sklearn \<Rightarrow> nat \<Rightarrow> networkx \<Rightarrow> flash_loan_detector \<Rightarrow> 'm ml_engine \<Rightarrow> db \<Rightarrow>
     summary \<times> 'm ml_engine \<times> digraph \<times> db" where
  "run_full_detection sk n_clusters nx det eng d =
     (case train sk n_clusters eng (sort_key timestamp (transactions d)) of (train_result, eng1) \<Rightarrow>
      case predict sk n_clusters eng1 (sort_key timestamp (transactions d)) of (predictions, eng2) \<Rightarrow>
        (let d1 = update_wallet_profiles d predictions;
             g = build_graph (transactions d1);
             cycles = detect_cycles nx g 4;
             wash_pairs = detect_wash_trading g;
             central_wallets = compute_centrality nx g 20;
             flash_events = detect det (sort_key block_number (transactions d1));
             final = foldl (score_profile g det) (d1, 0) (wallet_profiles d1)
         in (\<lparr>ml_training = train_result, wallets_profiled = length predictions,
              graph_nodes = number_of_nodes g, graph_edges = number_of_edges g,
              cycles_detected = length cycles, wash_trade_pairs = length wash_pairs,
              flash_loan_events = length flash_events,
              high_centrality_wallets = length central_wallets,
              alerts_generated = snd final\<rparr>,
             eng2, g, fst final)))"

subsection \<open>Notions for the statements about the risk engine\<close>

text \<open>The four component scores that \<^verbatim>\<open>compute_risk\<close> reads for an address.\<close>

definition ml_score_of :: "db \<Rightarrow> string \<Rightarrow> real" where
  "ml_score_of d addr =
     (case find (\<lambda>p. address p = addr) (wallet_profiles d) of
        None \<Rightarrow> 0 | Some p \<Rightarrow> risk_score p)"

definition flash_score_of :: "db \<Rightarrow> string \<Rightarrow> real" where
  "flash_score_of d addr =
     get_wallet_flash_score the_flash_loan_detector (sort_key block_number (transactions d)) addr"

definition stored_score :: "db \<Rightarrow> string \<Rightarrow> risk_score_row option" where
  "stored_score d addr = find (\<lambda>row. rs_wallet_address row = addr) (risk_scores d)"

text \<open>
  A database with one profiled wallet and no transactions; the anomaly score of the
  profile is the parameter.
\<close>

definition one_profile :: "real \<Rightarrow> db" where
  "one_profile x =
     \<lparr>transactions = [],
      wallet_profiles =
        [\<lparr>address = ''a'', tx_count = 0, total_value_sent = 0, total_value_received = 0,
          avg_value = 0, unique_counterparties = 0, inflow_outflow_ratio = 0,
          tx_frequency = 0, burst_score = 0, profile_cluster_label = 0, risk_score = x\<rparr>],
      risk_scores = [], alerts = []\<rparr>"

subsection \<open>Notions for the statements about the pipeline\<close>

text \<open>The risk computed for an address, and the alert the loop writes for a profile.\<close>

definition risk_of :: "digraph \<Rightarrow> db \<Rightarrow> string \<Rightarrow> risk" where
  "risk_of g d addr = fst (compute_risk g the_flash_loan_detector d addr)"

definition alert_of :: "digraph \<Rightarrow> db \<Rightarrow> wallet_profile \<Rightarrow> alert list" where
  "alert_of g d p =
     (if 40 \<le> composite_score (risk_of g d (address p))
      then [\<lparr>al_wallet_address = address p,
             al_alert_type = alert_type_of (risk_of g d (address p)),
             al_severity = risk_severity (risk_of g d (address p)),
             al_risk_score = composite_score (risk_of g d (address p)),
             al_explanation = explanation (risk_of g d (address p))\<rparr>]
      else [])"

text \<open>The alerts that a run adds to those of the database it started from.\<close>

definition new_alerts :: "db \<Rightarrow> db \<Rightarrow> alert list" where
  "new_alerts d d' = drop (length (alerts d)) (alerts d')"

text \<open>The database and the graph after a run of the whole pipeline.\<close>

definition db_after :: "'m sklearn \<Rightarrow> nat \<Rightarrow> networkx \<Rightarrow> 'm ml_engine \<Rightarrow> db \<Rightarrow> db" where
  "db_after sk n_clusters nx eng d =
     snd (snd (snd (run_full_detection sk n_clusters nx the_flash_loan_detector eng d)))"

definition graph_after :: "'m sklearn \<Rightarrow> nat \<Rightarrow> networkx \<Rightarrow> 'm ml_engine \<Rightarrow> db \<Rightarrow> digraph" where
  "graph_after sk n_clusters nx eng d =
     fst (snd (snd (run_full_detection sk n_clusters nx the_flash_loan_detector eng d)))"

text \<open>The alert type by the priority of the claim, from the component scores.\<close>

definition type_by_priority :: "real \<Rightarrow> real \<Rightarrow> real \<Rightarrow> alert_type" where
  "type_by_priority flash_score wash_score graph_sc =
     (if 50 < flash_score then Flash_loan
      else if 40 < wash_score then Wash_trade
      else if 30 < graph_sc then High_centrality
      else Anomaly)"

text \<open>
  A run on scenario A with one wallet profiled before: the stored anomaly score of
  \<open>a\<close> is 100, and the two wallets are too few to train on, so the library is not called.
\<close>

definition pipeline_example :: db where
  "pipeline_example =
     \<lparr>transactions = flash_example,
      wallet_profiles =
        [\<lparr>address = ''a'', tx_count = 2, total_value_sent = 10, total_value_received = 10,
          avg_value = 10, unique_counterparties = 1, inflow_outflow_ratio = 1,
          tx_frequency = 0, burst_score = 2, profile_cluster_label = 0, risk_score = 100\<rparr>],
      risk_scores = [], alerts = []\<rparr>"

definition no_sklearn :: "unit sklearn" where
  "no_sklearn =
     \<lparr>fit = (\<lambda>X k. ()), forest_predict = (\<lambda>m X. []), decision_function = (\<lambda>m X. []),
      kmeans_predict = (\<lambda>m X. [])\<rparr>"

definition fresh_engine :: "unit ml_engine" where
  "fresh_engine = \<lparr>fitted = (), is_trained = False\<rparr>"

definition no_networkx :: networkx where
  "no_networkx = \<lparr>simple_cycles = (\<lambda>g. []), betweenness_centrality = (\<lambda>g k n. 0)\<rparr>"

section \<open>Properties\<close>

subsection \<open>Rounding and dictionaries\<close>

lemma round_half_even_of_int: "round_half_even (of_int k) = k"
  by (simp add: round_half_even_def)

lemma round_half_even_bounds:
  "\<lfloor>x\<rfloor> \<le> round_half_even x" "round_half_even x \<le> \<lfloor>x\<rfloor> + 1"
  by (simp_all add: round_half_even_def Let_def)

lemma round_half_even_mono:
  assumes "x \<le> y"
  shows "round_half_even x \<le> round_half_even y"
proof (cases "\<lfloor>x\<rfloor> = \<lfloor>y\<rfloor>")
  case True
  then have "x - of_int \<lfloor>x\<rfloor> \<le> y - of_int \<lfloor>y\<rfloor>"
    using assms by simp
  then show ?thesis
    using True by (auto simp add: round_half_even_def Let_def)
next
  case False
  then have "\<lfloor>x\<rfloor> < \<lfloor>y\<rfloor>"
    using assms floor_mono [of x y] by linarith
  then show ?thesis
    using round_half_even_bounds(2) [of x] round_half_even_bounds(1) [of y] by linarith
qed

lemma py_round_mono: "x \<le> y \<Longrightarrow> py_round x n \<le> py_round y n"
  by (simp add: py_round_def divide_right_mono round_half_even_mono)

lemma py_round_of_int: "py_round (of_int k) n = of_int k"
proof -
  have "of_int k * (10::real) ^ n = of_int (k * 10 ^ n)" by simp
  then show ?thesis
    unfolding py_round_def by (simp only: round_half_even_of_int) simp
qed

lemma py_round_0: "py_round 0 n = 0"
  using py_round_of_int [of 0 n] by simp

lemma py_round_100: "py_round 100 n = 100"
  using py_round_of_int [of 100 n] by simp

lemma py_round_fixed: "py_round (of_int k / 10 ^ n) n = of_int k / 10 ^ n"
  by (simp add: py_round_def round_half_even_of_int)

lemma py_round_idem: "py_round (py_round x n) n = py_round x n"
  unfolding py_round_def [of x n] by (rule py_round_fixed)

lemma map_of_dd_modify:
  "map_of (dd_modify k f d kvs) =
     (map_of kvs)(k \<mapsto> f (case map_of kvs k of None \<Rightarrow> d | Some v \<Rightarrow> v))"
  by (induction kvs) (auto simp: fun_eq_iff)

lemma keys_dd_modify:
  "map fst (dd_modify k f d kvs) =
     (if k \<in> fst ` set kvs then map fst kvs else map fst kvs @ [k])"
  by (induction kvs) force+

lemma distinct_dd_modify:
  "distinct (map fst kvs) \<Longrightarrow> distinct (map fst (dd_modify k f d kvs))"
  by (simp add: keys_dd_modify)

subsection \<open>The flash-loan detector\<close>

lemma set_dd_modify:
  "(k', v') \<in> set (dd_modify k f d kvs) \<Longrightarrow>
     (k', v') \<in> set kvs \<or> k' = k \<and> (v' = f d \<or> (\<exists>v. (k, v) \<in> set kvs \<and> v' = f v))"
  by (induction kvs) (auto split: if_splits)

lemma bw_ok_dd_modify:
  assumes "bw_ok bw"
  shows "bw_ok (dd_modify b (dd_modify w f d) [] bw)"
proof -
  have "distinct (map fst ws)"
    if "(b', ws) \<in> set (dd_modify b (dd_modify w f d) [] bw)" for b' ws
    using set_dd_modify [OF that] assms
    by (auto simp: bw_ok_def intro!: distinct_dd_modify)
  then show ?thesis
    using assms by (auto simp: bw_ok_def distinct_dd_modify)
qed

lemma bw_ok_group_tx: "bw_ok bw \<Longrightarrow> bw_ok (group_tx bw tx)"
  by (simp add: group_tx_def Let_def bw_ok_dd_modify)

lemma foldl_group_tx_ok: "bw_ok bw \<Longrightarrow> bw_ok (foldl group_tx bw txs)"
  by (induction txs arbitrary: bw) (simp_all add: bw_ok_group_tx)

lemma bw_ok_Nil: "bw_ok []"
  by (simp add: bw_ok_def)

lemma bw_ok_group_flows: "bw_ok (group_flows txs)"
  unfolding group_flows_def by (rule foldl_group_tx_ok [OF bw_ok_Nil])

lemma set_sort_desc: "set (sort_desc key xs) = set xs"
  by (simp add: sort_desc_def)

lemma flows_at_mem:
  assumes "bw_ok bw"
  shows "flows_at bw b w = Some fl \<longleftrightarrow> (\<exists>ws. (b, ws) \<in> set bw \<and> (w, fl) \<in> set ws)"
proof
  assume "flows_at bw b w = Some fl"
  then show "\<exists>ws. (b, ws) \<in> set bw \<and> (w, fl) \<in> set ws"
    by (auto simp: flows_at_def split: option.splits dest: map_of_SomeD)
next
  assume "\<exists>ws. (b, ws) \<in> set bw \<and> (w, fl) \<in> set ws"
  then obtain ws where ws: "(b, ws) \<in> set bw" "(w, fl) \<in> set ws"
    by blast
  from assms ws(1) have "map_of bw b = Some ws" "distinct (map fst ws)"
    by (auto simp: bw_ok_def)
  with ws(2) show "flows_at bw b w = Some fl"
    by (simp add: flows_at_def)
qed

lemma set_detect:
  "d \<in> set (detect det txs) \<longleftrightarrow>
     (\<exists>b w fl. flows_at (group_flows txs) b w = Some fl \<and> d \<in> set (check_flows det b (w, fl)))"
  by (fastforce simp: detect_def set_sort_desc flows_at_mem [OF bw_ok_group_flows])

lemma check_flows_default:
  "d \<in> set (check_flows the_flash_loan_detector b (w, fl)) \<longleftrightarrow>
     1 \<le> inflow fl \<and> 1 \<le> outflow fl \<and> diff_ratio (inflow fl) (outflow fl) \<le> 5 / 100 \<and>
     d = \<lparr>wallet = w, sus_block_number = b,
          inflow_eth = py_round (inflow fl) 6, outflow_eth = py_round (outflow fl) 6,
          value_difference_pct = py_round (diff_ratio (inflow fl) (outflow fl) * 100) 2,
          flash_loan_score = py_round ((1 - diff_ratio (inflow fl) (outflow fl)) * 100) 2\<rparr>"
  by (auto simp: check_flows_def the_flash_loan_detector_def Let_def)

lemma diff_ratio_range:
  assumes "1 \<le> a" "1 \<le> b"
  shows "0 \<le> diff_ratio a b" "diff_ratio a b < 1"
  using assms by (auto simp: diff_ratio_def Let_def max_def min_def divide_simps)

lemma py_round_range:
  assumes "of_int lo \<le> x" "x \<le> of_int hi"
  shows "of_int lo \<le> py_round x n" "py_round x n \<le> of_int hi"
  using py_round_mono [OF assms(1), of n] py_round_mono [OF assms(2), of n]
  by (simp_all add: py_round_of_int)

lemma flash_score_range:
  assumes "1 \<le> a" "1 \<le> b"
  shows "0 \<le> py_round ((1 - diff_ratio a b) * 100) 2" "py_round ((1 - diff_ratio a b) * 100) 2 \<le> 100"
proof -
  have "of_int 0 \<le> (1 - diff_ratio a b) * 100" "(1 - diff_ratio a b) * 100 \<le> of_int 100"
    using diff_ratio_range [OF assms] by simp_all
  from py_round_range [OF this]
  show "0 \<le> py_round ((1 - diff_ratio a b) * 100) 2" "py_round ((1 - diff_ratio a b) * 100) 2 \<le> 100"
    by simp_all
qed

lemmas flash_eval = detect_def group_flows_def group_tx_def Let_def
  add_inflow_def add_outflow_def no_flows_def check_flows_def the_flash_loan_detector_def
  diff_ratio_def sort_desc_def py_round_def round_half_even_def

lemma flash_example_detect:
  "detect the_flash_loan_detector flash_example =
     [\<lparr>wallet = ''a'', sus_block_number = 100, inflow_eth = 10, outflow_eth = 10,
       value_difference_pct = 0, flash_loan_score = 100\<rparr>,
      \<lparr>wallet = ''b'', sus_block_number = 100, inflow_eth = 10, outflow_eth = 10,
       value_difference_pct = 0, flash_loan_score = 100\<rparr>]"
  by (simp add: flash_eval flash_example_def)

subsection \<open>The interaction graph\<close>

lemma get_edge_add_node: "get_edge (add_node n g) u v = get_edge g u v"
  by (auto simp: get_edge_def adj_def add_node_def map_of_dd_modify split: option.splits)

lemma nodes_add_node: "set (nodes (add_node n g)) = insert n (set (nodes g))"
  by (auto simp: nodes_def add_node_def keys_dd_modify)

lemma get_edge_add_edge:
  "get_edge (add_edge u v attrs g) u' v' =
     (if u' = u \<and> v' = v then Some attrs else get_edge g u' v')"
proof -
  let ?g = "add_node v (add_node u g)"
  have "get_edge (add_edge u v attrs g) u' v' =
     (if u' = u \<and> v' = v then Some attrs else get_edge ?g u' v')"
    by (auto simp: add_edge_def get_edge_def adj_def map_of_dd_modify split: option.splits)
  then show ?thesis
    by (simp add: get_edge_add_node)
qed

lemma nodes_add_edge: "set (nodes (add_edge u v attrs g)) = insert u (insert v (set (nodes g)))"
proof -
  have "set (nodes (add_edge u v attrs g)) = insert u (set (nodes (add_node v (add_node u g))))"
    by (auto simp: add_edge_def nodes_def keys_dd_modify)
  then show ?thesis
    by (auto simp: nodes_add_node)
qed

lemma get_edge_foldl_add_item:
  "distinct (map fst kvs) \<Longrightarrow>
     get_edge (foldl add_item g kvs) u v =
       (case map_of kvs (u, v) of None \<Rightarrow> get_edge g u v | Some e \<Rightarrow> Some (edge_of_acc e))"
proof (induction kvs arbitrary: g)
  case Nil
  show ?case by simp
next
  case (Cons kv kvs)
  obtain a b e where kv: "kv = ((a, b), e)"
    by (metis surj_pair)
  from Cons.prems have d: "distinct (map fst kvs)" and n: "(a, b) \<notin> fst ` set kvs"
    by (simp_all add: kv)
  from n have none: "map_of kvs (a, b) = None"
    by (simp add: map_of_eq_None_iff)
  show ?case
    using Cons.IH [OF d, of "add_item g kv"] none
    by (auto simp: kv add_item.simps get_edge_add_edge split: option.splits)
qed

lemma nodes_foldl_add_item:
  "set (nodes (foldl add_item g kvs)) =
     set (nodes g) \<union> fst ` fst ` set kvs \<union> snd ` fst ` set kvs"
proof (induction kvs arbitrary: g)
  case Nil
  show ?case by simp
next
  case (Cons kv kvs)
  obtain a b e where kv: "kv = ((a, b), e)"
    by (metis surj_pair)
  show ?case
    by (simp add: Cons.IH kv nodes_add_edge) blast
qed

lemma sent_Cons: "sent (tx # txs) u v = (if sends tx u v then tx # sent txs u v else sent txs u v)"
  by (auto simp: sent_def sends_def)

lemma truthy_iff: "truthy x \<longleftrightarrow> (\<exists>s. x = Some s \<and> s \<noteq> [])"
  by (cases x) simp_all

lemma blocks_of_Nil: "blocks_of None = []"
  by (simp add: blocks_of_def)

lemma sent_Nil: "sent [] u v = []"
  by (simp add: sent_def)

lemma add_tx_key:
  "map_of (add_tx ed tx) (u, v) =
     (if sends tx u v
      then Some \<lparr>acc_weight = weight_of (map_of ed (u, v)) + value_eth tx,
                 acc_count = count_of (map_of ed (u, v)) + 1,
                 acc_blocks = List.insert (block_number tx) (blocks_of (map_of ed (u, v)))\<rparr>
      else map_of ed (u, v))"
  by (cases "to_address tx")
     (auto simp: add_tx_def sends_def map_of_dd_modify weight_of_def count_of_def blocks_of_def
        no_edge_acc_def split: option.splits)

lemma add_tx_weight:
  "weight_of (map_of (add_tx ed tx) (u, v)) =
     weight_of (map_of ed (u, v)) + (if sends tx u v then value_eth tx else 0)"
  unfolding add_tx_key by (simp add: weight_of_def)

lemma add_tx_count:
  "count_of (map_of (add_tx ed tx) (u, v)) =
     count_of (map_of ed (u, v)) + (if sends tx u v then 1 else 0)"
  unfolding add_tx_key by (simp add: count_of_def)

lemma add_tx_blocks:
  "blocks_of (map_of (add_tx ed tx) (u, v)) =
     (if sends tx u v then List.insert (block_number tx) (blocks_of (map_of ed (u, v)))
      else blocks_of (map_of ed (u, v)))"
  unfolding add_tx_key by (simp add: blocks_of_def)

lemma add_tx_present:
  "is_some (map_of (add_tx ed tx) (u, v)) \<longleftrightarrow> is_some (map_of ed (u, v)) \<or> sends tx u v"
  unfolding add_tx_key by (simp add: is_some_def)

lemma add_tx_distinct: "distinct (map fst ed) \<Longrightarrow> distinct (map fst (add_tx ed tx))"
  by (simp add: add_tx_def distinct_dd_modify)

lemma foldl_add_tx_weight:
  "weight_of (map_of (foldl add_tx ed txs) (u, v)) =
     weight_of (map_of ed (u, v)) + sum_list (map value_eth (sent txs u v))"
proof (induction txs arbitrary: ed)
  case Nil
  show ?case by (simp add: sent_Nil)
next
  case (Cons tx txs)
  show ?case by (simp add: Cons.IH add_tx_weight sent_Cons)
qed

lemma foldl_add_tx_count:
  "count_of (map_of (foldl add_tx ed txs) (u, v)) =
     count_of (map_of ed (u, v)) + length (sent txs u v)"
proof (induction txs arbitrary: ed)
  case Nil
  show ?case by (simp add: sent_Nil)
next
  case (Cons tx txs)
  show ?case by (simp add: Cons.IH add_tx_count sent_Cons)
qed

lemma foldl_add_tx_blocks:
  "set (blocks_of (map_of (foldl add_tx ed txs) (u, v))) =
     set (blocks_of (map_of ed (u, v))) \<union> block_number ` set (sent txs u v)"
proof (induction txs arbitrary: ed)
  case Nil
  show ?case by (simp add: sent_Nil)
next
  case (Cons tx txs)
  show ?case by (simp add: Cons.IH add_tx_blocks sent_Cons)
qed

lemma foldl_add_tx_blocks_distinct:
  "distinct (blocks_of (map_of ed (u, v))) \<Longrightarrow>
     distinct (blocks_of (map_of (foldl add_tx ed txs) (u, v)))"
proof (induction txs arbitrary: ed)
  case Nil
  then show ?case by simp
next
  case (Cons tx txs)
  from Cons.prems have "distinct (blocks_of (map_of (add_tx ed tx) (u, v)))"
    by (simp add: add_tx_blocks)
  from Cons.IH [OF this] show ?case by simp
qed

lemma foldl_add_tx_present:
  "is_some (map_of (foldl add_tx ed txs) (u, v)) \<longleftrightarrow>
     is_some (map_of ed (u, v)) \<or> sent txs u v \<noteq> []"
proof (induction txs arbitrary: ed)
  case Nil
  show ?case by (simp add: sent_Nil)
next
  case (Cons tx txs)
  show ?case by (simp add: Cons.IH add_tx_present sent_Cons)
qed

lemma foldl_add_tx_distinct:
  "distinct (map fst ed) \<Longrightarrow> distinct (map fst (foldl add_tx ed txs))"
  by (induction txs arbitrary: ed) (simp_all add: add_tx_distinct)

lemma edge_data_lookup:
  "map_of (foldl add_tx [] txs) (u, v) =
     (if sent txs u v = [] then None
      else Some \<lparr>acc_weight = sum_list (map value_eth (sent txs u v)),
                 acc_count = length (sent txs u v),
                 acc_blocks = blocks_of (map_of (foldl add_tx [] txs) (u, v))\<rparr>)"
proof (cases "sent txs u v = []")
  case True
  with foldl_add_tx_present [of "[]" txs u v] show ?thesis
    by (simp add: is_some_def)
next
  case False
  with foldl_add_tx_present [of "[]" txs u v]
  obtain e where e: "map_of (foldl add_tx [] txs) (u, v) = Some e"
    by (auto simp: is_some_def)
  have "acc_weight e = sum_list (map value_eth (sent txs u v))"
    using foldl_add_tx_weight [of "[]" txs u v] by (simp add: e weight_of_def)
  moreover have "acc_count e = length (sent txs u v)"
    using foldl_add_tx_count [of "[]" txs u v] by (simp add: e count_of_def)
  ultimately show ?thesis
    using False by (simp add: e blocks_of_def)
qed

lemma edge_data_blocks:
  "length (blocks_of (map_of (foldl add_tx [] txs) (u, v))) =
     card (block_number ` set (sent txs u v))"
proof -
  have "distinct (blocks_of (map_of (foldl add_tx [] txs) (u, v)))"
    by (rule foldl_add_tx_blocks_distinct) (simp add: blocks_of_Nil)
  then have "length (blocks_of (map_of (foldl add_tx [] txs) (u, v))) =
      card (set (blocks_of (map_of (foldl add_tx [] txs) (u, v))))"
    by (simp add: distinct_card)
  then show ?thesis
    by (simp add: foldl_add_tx_blocks blocks_of_Nil)
qed

lemma get_edge_Nil: "get_edge [] u v = None"
  by (simp add: get_edge_def adj_def)

lemma get_edge_build_graph:
  "get_edge (build_graph txs) u v =
     (if sent txs u v = [] then None
      else Some \<lparr>weight = sum_list (map value_eth (sent txs u v)),
                 count = length (sent txs u v),
                 blocks = card (block_number ` set (sent txs u v))\<rparr>)"
proof -
  have d: "distinct (map fst (foldl add_tx [] txs))"
    by (rule foldl_add_tx_distinct) simp
  show ?thesis
    unfolding build_graph_def get_edge_foldl_add_item [OF d] get_edge_Nil
    by (subst edge_data_lookup) (simp add: edge_of_acc_def edge_data_blocks)
qed

lemma edge_data_keys:
  "(u, v) \<in> fst ` set (foldl add_tx [] txs) \<longleftrightarrow> sent txs u v \<noteq> []"
  using foldl_add_tx_present [of "[]" txs u v]
  by (simp add: is_some_def map_of_eq_None_iff)

lemma sent_nonempty: "sent txs u v \<noteq> [] \<longleftrightarrow> (\<exists>tx \<in> set txs. sends tx u v)"
  by (auto simp: sent_def sends_def filter_empty_conv)

lemma in_fst_image: "a \<in> fst ` K \<longleftrightarrow> (\<exists>b. (a, b) \<in> K)"
  by force

lemma in_snd_image: "a \<in> snd ` K \<longleftrightarrow> (\<exists>b. (b, a) \<in> K)"
  by force

lemma nodes_Nil: "nodes [] = []"
  by (simp add: nodes_def)

lemma sends_some:
  "(\<exists>b. sends tx a b) \<longleftrightarrow> truthy (to_address tx) \<and> from_address tx = a"
  "(\<exists>b. sends tx b a) \<longleftrightarrow> truthy (to_address tx) \<and> to_address tx = Some a"
  by (auto simp: sends_def truthy_iff)

lemma nodes_build_graph:
  "set (nodes (build_graph txs)) =
     {a. \<exists>tx \<in> set txs. truthy (to_address tx) \<and> (from_address tx = a \<or> to_address tx = Some a)}"
proof -
  have "a \<in> set (nodes (build_graph txs)) \<longleftrightarrow>
      (\<exists>tx \<in> set txs. truthy (to_address tx) \<and> (from_address tx = a \<or> to_address tx = Some a))"
    for a
  proof -
    have "a \<in> set (nodes (build_graph txs)) \<longleftrightarrow>
        (\<exists>b. (a, b) \<in> fst ` set (foldl add_tx [] txs)) \<or>
        (\<exists>b. (b, a) \<in> fst ` set (foldl add_tx [] txs))"
      unfolding build_graph_def nodes_foldl_add_item nodes_Nil
      by (simp add: in_fst_image [of a] in_snd_image [of a])
    also have "\<dots> \<longleftrightarrow> (\<exists>b. \<exists>tx \<in> set txs. sends tx a b) \<or> (\<exists>b. \<exists>tx \<in> set txs. sends tx b a)"
      by (simp only: edge_data_keys sent_nonempty)
    also have "\<dots> \<longleftrightarrow> (\<exists>tx \<in> set txs. (\<exists>b. sends tx a b) \<or> (\<exists>b. sends tx b a))"
      by blast
    also have "\<dots> \<longleftrightarrow>
      (\<exists>tx \<in> set txs. truthy (to_address tx) \<and> (from_address tx = a \<or> to_address tx = Some a))"
      unfolding sends_some by blast
    finally show ?thesis .
  qed
  then show ?thesis by blast
qed

lemma has_edge_build_graph:
  "has_edge (build_graph txs) u v \<longleftrightarrow>
     (\<exists>tx \<in> set txs. truthy (to_address tx) \<and> from_address tx = u \<and> to_address tx = Some v)"
proof -
  have "has_edge (build_graph txs) u v \<longleftrightarrow> sent txs u v \<noteq> []"
    by (simp add: has_edge_def get_edge_build_graph)
  also have "\<dots> \<longleftrightarrow> (\<exists>tx \<in> set txs. sends tx u v)"
    by (rule sent_nonempty)
  finally show ?thesis
    unfolding sends_def .
qed

text \<open>
  Claim C7, as the code has it. After \<open>build_graph\<close> the nodes are exactly the senders and
  recipients of the transactions that have a recipient; there is an edge from \<open>u\<close> to
  \<open>v\<close> exactly when \<open>u\<close> sent a transaction to \<open>v\<close>, and the edge carries the sum
  of the values, the number of these transactions and the number of their distinct blocks.
\<close>

theorem build_graph_nodes_edges:
  "set (nodes (build_graph txs)) =
     {a. \<exists>tx \<in> set txs. truthy (to_address tx) \<and> (from_address tx = a \<or> to_address tx = Some a)} \<and>
   (has_edge (build_graph txs) u v \<longleftrightarrow>
     (\<exists>tx \<in> set txs. truthy (to_address tx) \<and> from_address tx = u \<and> to_address tx = Some v)) \<and>
   (has_edge (build_graph txs) u v \<longrightarrow>
     get_edge (build_graph txs) u v =
       Some \<lparr>weight = sum_list (map value_eth (sent txs u v)),
             count = length (sent txs u v),
             blocks = card (block_number ` set (sent txs u v))\<rparr>)"
proof (intro conjI impI)
  show "set (nodes (build_graph txs)) =
     {a. \<exists>tx \<in> set txs. truthy (to_address tx) \<and> (from_address tx = a \<or> to_address tx = Some a)}"
    by (rule nodes_build_graph)
  show "has_edge (build_graph txs) u v \<longleftrightarrow>
     (\<exists>tx \<in> set txs. truthy (to_address tx) \<and> from_address tx = u \<and> to_address tx = Some v)"
    by (rule has_edge_build_graph)
  assume "has_edge (build_graph txs) u v"
  then have "sent txs u v \<noteq> []"
    by (auto simp: has_edge_def get_edge_build_graph split: if_splits)
  then show "get_edge (build_graph txs) u v =
       Some \<lparr>weight = sum_list (map value_eth (sent txs u v)),
             count = length (sent txs u v),
             blocks = card (block_number ` set (sent txs u v))\<rparr>"
    by (simp add: get_edge_build_graph)
qed

lemma graph_example_sent:
  "sent graph_example ''a'' ''b'' = take 2 graph_example"
  by (simp add: graph_example_def sent_def)

theorem build_graph_nodes_edges_witness:
  "has_edge (build_graph graph_example) ''a'' ''b'' \<and>
   get_edge (build_graph graph_example) ''a'' ''b'' = Some \<lparr>weight = 15, count = 2, blocks = 2\<rparr> \<and>
   ''b'' \<in> set (nodes (build_graph graph_example)) \<and>
   ''c'' \<notin> set (nodes (build_graph graph_example))"
  using build_graph_nodes_edges [of graph_example "''a''" "''b''"]
  unfolding graph_example_sent
  by (simp add: graph_example_def)

text \<open>
  The claim as it is written counts every sender as a node. The sender of a transaction
  without recipient, with no other transaction, is not one: the graph stays empty.
\<close>

theorem build_graph_nodes_counterexample:
  "nodes (build_graph creation_only) = [] \<and>
   from_address (hd creation_only) = ''a'' \<and> hd creation_only \<in> set creation_only"
  by (simp add: creation_only_def build_graph_def add_tx_def nodes_def)

lemma graph_ok_Nil: "graph_ok []"
  by (simp add: graph_ok_def)

lemma keys_set_dd_modify: "fst ` set (dd_modify k f d kvs) = insert k (fst ` set kvs)"
  using keys_dd_modify [of k f d kvs]
  by (metis (no_types, lifting) insert_absorb list.set_map set_append list.simps(15)
      Un_insert_right sup_bot.right_neutral empty_set)

lemma graph_ok_iff:
  "graph_ok g \<longleftrightarrow>
     distinct (map fst g) \<and>
     (\<forall>n nbrs. (n, nbrs) \<in> set g \<longrightarrow>
        distinct (map fst nbrs) \<and> fst ` set nbrs \<subseteq> fst ` set g)"
  unfolding graph_ok_def set_map by fast

lemma graph_ok_add_node:
  assumes "graph_ok g"
  shows "graph_ok (add_node n g)"
proof -
  have "distinct (map fst nbrs) \<and> fst ` set nbrs \<subseteq> insert n (fst ` set g)"
    if "(m, nbrs) \<in> set (add_node n g)" for m nbrs
  proof -
    from that have "(m, nbrs) \<in> set g \<or> nbrs = [] \<or> (n, nbrs) \<in> set g"
      unfolding add_node_def by (auto dest!: set_dd_modify)
    then show ?thesis
    proof (elim disjE)
      assume "nbrs = []"
      then show ?thesis by simp
    qed (use assms in \<open>unfold graph_ok_iff, blast\<close>)+
  qed
  then show ?thesis
    using assms unfolding graph_ok_iff add_node_def
    by (simp add: distinct_dd_modify keys_set_dd_modify)
qed

lemma graph_ok_add_edge:
  assumes "graph_ok g"
  shows "graph_ok (add_edge u v attrs g)"
proof -
  let ?g = "add_node v (add_node u g)"
  have ok: "graph_ok ?g"
    by (intro graph_ok_add_node assms)
  have keys: "fst ` set ?g = insert u (insert v (fst ` set g))"
    by (auto simp: add_node_def keys_set_dd_modify)
  have same: "fst ` set (add_edge u v attrs g) = fst ` set ?g"
    unfolding add_edge_def keys_set_dd_modify keys by auto
  have "distinct (map fst nbrs) \<and> fst ` set nbrs \<subseteq> fst ` set ?g"
    if "(n, nbrs) \<in> set (add_edge u v attrs g)" for n nbrs
  proof -
    from that have "(n, nbrs) \<in> set ?g \<or>
        (\<exists>old. (u, old) \<in> set ?g \<and> nbrs = dd_modify v (\<lambda>_. attrs) attrs old) \<or>
        nbrs = dd_modify v (\<lambda>_. attrs) attrs []"
      unfolding add_edge_def by (auto dest!: set_dd_modify)
    then show ?thesis
    proof (elim disjE exE conjE)
      assume "(n, nbrs) \<in> set ?g"
      then show ?thesis
        using ok unfolding graph_ok_iff by blast
    next
      fix old
      assume old: "(u, old) \<in> set ?g" and nbrs: "nbrs = dd_modify v (\<lambda>_. attrs) attrs old"
      from old ok have "distinct (map fst old)" "fst ` set old \<subseteq> fst ` set ?g"
        unfolding graph_ok_iff by blast+
      then show ?thesis
        unfolding nbrs keys_set_dd_modify using keys by (simp add: distinct_dd_modify)
    next
      assume "nbrs = dd_modify v (\<lambda>_. attrs) attrs []"
      then show ?thesis
        using keys by simp
    qed
  qed
  moreover have "distinct (map fst (add_edge u v attrs g))"
    using ok unfolding add_edge_def graph_ok_iff by (simp add: distinct_dd_modify)
  ultimately show ?thesis
    unfolding graph_ok_iff same by blast
qed

lemma graph_ok_foldl_add_item: "graph_ok g \<Longrightarrow> graph_ok (foldl add_item g kvs)"
proof (induction kvs arbitrary: g)
  case Nil
  then show ?case by simp
next
  case (Cons kv kvs)
  obtain a b e where kv: "kv = ((a, b), e)"
    by (metis surj_pair)
  show ?case
    by (simp add: kv Cons.IH graph_ok_add_edge Cons.prems)
qed

lemma graph_ok_build_graph: "graph_ok (build_graph txs)"
  unfolding build_graph_def by (rule graph_ok_foldl_add_item [OF graph_ok_Nil])

subsection \<open>Wash trading\<close>

lemma map_of_mem: "distinct (map fst kvs) \<Longrightarrow> (k, v) \<in> set kvs \<longleftrightarrow> map_of kvs k = Some v"
  by (auto dest: map_of_SomeD)

lemma edges_mem:
  assumes "graph_ok g"
  shows "(u, v, d) \<in> set (edges g) \<longleftrightarrow> get_edge g u v = Some d"
proof -
  have "(u, v, d) \<in> set (edges g) \<longleftrightarrow> (\<exists>nbrs. (u, nbrs) \<in> set g \<and> (v, d) \<in> set nbrs)"
    unfolding edges_def by force
  also have "\<dots> \<longleftrightarrow> (\<exists>nbrs. map_of g u = Some nbrs \<and> map_of nbrs v = Some d)"
    using assms unfolding graph_ok_iff by (metis map_of_mem map_of_SomeD)
  also have "\<dots> \<longleftrightarrow> get_edge g u v = Some d"
    by (auto simp: get_edge_def adj_def split: option.splits)
  finally show ?thesis .
qed

lemma similarity_zero: "similarity 0 0 = 0"
  by (simp add: similarity_def)

lemma similarity_same: "0 < a \<Longrightarrow> similarity a a = 1"
  by (simp add: similarity_def)

lemma check_edge_mem:
  "p \<in> set (check_edge g (u, v, data_uv)) \<longleftrightarrow>
     (\<exists>data_vu. get_edge g v u = Some data_vu \<and>
        8 / 10 < similarity (weight data_uv) (weight data_vu) \<and>
        p = pair_of u v data_uv data_vu)"
proof (cases "get_edge g v u")
  case None
  then show ?thesis by (simp add: check_edge_def)
next
  case (Some data_vu)
  show ?thesis
  proof (cases "weight data_uv = 0 \<and> weight data_vu = 0")
    case True
    then have "\<not> 8 / 10 < similarity (weight data_uv) (weight data_vu)"
      by (simp add: similarity_zero)
    with True Some show ?thesis
      by (simp add: check_edge_def)
  next
    case False
    with Some show ?thesis
      by (auto simp: check_edge_def pair_of_def Let_def similarity_zero)
  qed
qed

lemma suspicious_pairs_mem:
  assumes "graph_ok g"
  shows "p \<in> set (suspicious_pairs g) \<longleftrightarrow>
     (\<exists>u v data_uv data_vu. get_edge g u v = Some data_uv \<and> get_edge g v u = Some data_vu \<and>
        8 / 10 < similarity (weight data_uv) (weight data_vu) \<and>
        p = pair_of u v data_uv data_vu)"
proof -
  have "p \<in> set (suspicious_pairs g) \<longleftrightarrow>
      (\<exists>u v data_uv. (u, v, data_uv) \<in> set (edges g) \<and> p \<in> set (check_edge g (u, v, data_uv)))"
    unfolding suspicious_pairs_def by force
  then show ?thesis
    unfolding edges_mem [OF assms] check_edge_mem by blast
qed

lemma dedup_Cons:
  "dedup seen (p # ps) =
     (if pair_key p \<notin> seen then p # dedup (insert (pair_key p) seen) ps else dedup seen ps)"
  by (simp add: pair_key_def)

lemma dedup_subset: "set (dedup seen ps) \<subseteq> set ps"
  by (induction ps arbitrary: seen) (auto simp: Let_def)

lemma dedup_covers:
  "p \<in> set ps \<Longrightarrow> pair_key p \<notin> seen \<Longrightarrow> \<exists>q \<in> set (dedup seen ps). pair_key q = pair_key p"
proof (induction ps arbitrary: seen)
  case Nil
  then show ?case by simp
next
  case (Cons x ps)
  show ?case
  proof (cases "pair_key x = pair_key p")
    case True
    with Cons.prems(2) show ?thesis
      by (auto simp: dedup_Cons simp del: dedup.simps)
  next
    case False
    with Cons.prems have "p \<in> set ps" "pair_key p \<notin> insert (pair_key x) seen"
      by auto
    from Cons.IH [OF this] Cons.IH [OF \<open>p \<in> set ps\<close> Cons.prems(2)] show ?thesis
      by (auto simp: dedup_Cons simp del: dedup.simps)
  qed
qed

lemma sorted_pair_eq: "sorted_pair a b = sorted_pair c d \<longleftrightarrow> {a, b} = {c, d}"
  by (auto simp: sorted_pair_def doubleton_eq_iff)

lemma pair_key_eq: "pair_key p = pair_key q \<longleftrightarrow> wallets p = wallets q"
  by (simp add: pair_key_def wallets_def sorted_pair_eq)

lemma detect_wash_trading_set:
  "set (detect_wash_trading g) = set (dedup {} (suspicious_pairs g))"
  by (simp add: detect_wash_trading_def suspicious_pairs_def set_sort_desc)

lemma wash_reported:
  assumes ok: "graph_ok g" and p: "p \<in> set (detect_wash_trading g)"
  shows "\<exists>data_uv data_vu.
      get_edge g (wallet_a p) (wallet_b p) = Some data_uv \<and>
      get_edge g (wallet_b p) (wallet_a p) = Some data_vu \<and>
      8 / 10 < similarity (weight data_uv) (weight data_vu) \<and>
      p = pair_of (wallet_a p) (wallet_b p) data_uv data_vu"
proof -
  from p have "p \<in> set (suspicious_pairs g)"
    using dedup_subset unfolding detect_wash_trading_set by blast
  then obtain u v data_uv data_vu where
    e: "get_edge g u v = Some data_uv" "get_edge g v u = Some data_vu"
      "8 / 10 < similarity (weight data_uv) (weight data_vu)"
    and eq: "p = pair_of u v data_uv data_vu"
    unfolding suspicious_pairs_mem [OF ok] by blast
  from eq have wa: "wallet_a p = u" and wb: "wallet_b p = v"
    by (simp_all add: pair_of_def)
  show ?thesis
    unfolding wa wb using e eq by blast
qed

lemma wash_covered:
  assumes ok: "graph_ok g"
    and e: "get_edge g u v = Some data_uv" "get_edge g v u = Some data_vu"
      "8 / 10 < similarity (weight data_uv) (weight data_vu)"
  shows "\<exists>p \<in> set (detect_wash_trading g). wallets p = {u, v}"
proof -
  let ?p = "pair_of u v data_uv data_vu"
  from e have "?p \<in> set (suspicious_pairs g)"
    unfolding suspicious_pairs_mem [OF ok] by blast
  then obtain q where q: "q \<in> set (dedup {} (suspicious_pairs g))" "pair_key q = pair_key ?p"
    using dedup_covers [of ?p "suspicious_pairs g" "{}"] by auto
  from q(2) have "wallets q = {u, v}"
    unfolding pair_key_eq by (simp add: wallets_def pair_of_def)
  with q(1) show ?thesis
    unfolding detect_wash_trading_set by blast
qed

lemmas graph_eval = build_graph_def add_tx_def no_edge_acc_def edge_of_acc_def add_edge_def
  add_node_def

lemmas wash_eval = detect_wash_trading_def edges_def check_edge_def get_edge_def adj_def
  similarity_def sorted_pair_def sort_desc_def py_round_def round_half_even_def Let_def

lemma self_loop_graph:
  "build_graph self_loop_example = [(''u'', [(''u'', \<lparr>weight = 2, count = 1, blocks = 1\<rparr>)])]"
  by (simp add: self_loop_example_def graph_eval)

lemma self_loop_detect:
  "detect_wash_trading (build_graph self_loop_example) =
     [\<lparr>wallet_a = ''u'', wallet_b = ''u'', value_a_to_b = 2, value_b_to_a = 2,
       value_similarity = 1, tx_count_a_to_b = 1, tx_count_b_to_a = 1,
       suspicion_score = 60\<rparr>]"
  unfolding self_loop_graph by (simp add: wash_eval)

text \<open>
  Claim C10. A self-loop of positive weight in a well-formed graph is reported as a pair
  of the wallet with itself, with similarity 1 and score \<open>50 + min (2 * count) 10 * 5\<close>;
  and \<open>build_graph\<close> keeps the self-loop of a transaction whose sender is its recipient.
\<close>

theorem self_loop_flagged:
  "(graph_ok g \<and> get_edge g u u = Some d \<and> 0 < weight d \<longrightarrow>
      (\<exists>p \<in> set (detect_wash_trading g).
         wallet_a p = u \<and> wallet_b p = u \<and> value_similarity p = 1 \<and>
         suspicion_score p = 50 + real (min (2 * count d) 10) * 5)) \<and>
   (tx \<in> set txs \<and> from_address tx = u \<and> to_address tx = Some u \<and> u \<noteq> [] \<longrightarrow>
      has_edge (build_graph txs) u u \<and> graph_ok (build_graph txs))"
proof (intro conjI impI)
  assume a: "graph_ok g \<and> get_edge g u u = Some d \<and> 0 < weight d"
  then have ok: "graph_ok g" and e: "get_edge g u u = Some d" and w: "0 < weight d"
    by simp_all
  have "8 / 10 < similarity (weight d) (weight d)"
    using w by (simp add: similarity_same)
  from wash_covered [OF ok e e this] obtain p where
    p: "p \<in> set (detect_wash_trading g)" and ws: "wallets p = {u, u}"
    by blast
  from ws have ab: "wallet_a p = u" "wallet_b p = u"
    by (auto simp: wallets_def)
  from wash_reported [OF ok p] e have eq: "p = pair_of u u d d"
    unfolding ab by auto
  have "value_similarity p = py_round 1 4"
    by (subst eq) (simp add: pair_of_def similarity_same [OF w])
  then have vs: "value_similarity p = 1"
    using py_round_of_int [of 1 4] by simp
  have "suspicion_score p = py_round (of_int (50 + int (min (2 * count d) 10) * 5)) 2"
    by (subst eq) (simp add: pair_of_def similarity_same [OF w] mult_2)
  also have "\<dots> = of_int (50 + int (min (2 * count d) 10) * 5)"
    by (rule py_round_of_int)
  finally have "suspicion_score p = 50 + real (min (2 * count d) 10) * 5"
    by simp
  with p ab vs show "\<exists>p \<in> set (detect_wash_trading g).
         wallet_a p = u \<and> wallet_b p = u \<and> value_similarity p = 1 \<and>
         suspicion_score p = 50 + real (min (2 * count d) 10) * 5"
    by blast
next
  assume "tx \<in> set txs \<and> from_address tx = u \<and> to_address tx = Some u \<and> u \<noteq> []"
  then show "has_edge (build_graph txs) u u"
    unfolding has_edge_build_graph by (intro bexI [of _ tx]) simp_all
next
  show "graph_ok (build_graph txs)"
    by (rule graph_ok_build_graph)
qed

theorem self_loop_flagged_witness:
  "graph_ok (build_graph self_loop_example) \<and>
   get_edge (build_graph self_loop_example) ''u'' ''u'' = Some \<lparr>weight = 2, count = 1, blocks = 1\<rparr> \<and>
   has_edge (build_graph self_loop_example) ''u'' ''u'' \<and>
   map wallet_a (detect_wash_trading (build_graph self_loop_example)) = [''u''] \<and>
   map wallet_b (detect_wash_trading (build_graph self_loop_example)) = [''u''] \<and>
   map value_similarity (detect_wash_trading (build_graph self_loop_example)) = [1] \<and>
   map suspicion_score (detect_wash_trading (build_graph self_loop_example)) = [60]"
  using self_loop_flagged [of "build_graph self_loop_example" "''u''"
      "\<lparr>weight = 2, count = 1, blocks = 1\<rparr>" "hd self_loop_example" self_loop_example]
  unfolding self_loop_detect
  by (simp add: graph_ok_build_graph) (simp add: self_loop_graph get_edge_def adj_def has_edge_def)

subsection \<open>The features of a wallet\<close>

lemma collect_tx_keys:
  "fst ` set (collect_tx wd tx) =
     fst ` set wd \<union> {from_address tx} \<union> (if receiver_of tx \<noteq> [] then {receiver_of tx} else {})"
  by (auto simp: collect_tx_def Let_def keys_set_dd_modify)

lemma collect_tx_distinct: "distinct (map fst wd) \<Longrightarrow> distinct (map fst (collect_tx wd tx))"
  by (simp add: collect_tx_def Let_def distinct_dd_modify)

lemma collect_tx_sent:
  "sent_of (map_of (collect_tx wd tx) a) =
     sent_of (map_of wd a) @ (if from_address tx = a then [value_eth tx] else [])"
  by (auto simp: collect_tx_def Let_def map_of_dd_modify sent_of_def sender_stats_def
      receiver_stats_def no_wallet_acc_def split: option.splits)

lemma collect_tx_received:
  "received_of (map_of (collect_tx wd tx) a) =
     received_of (map_of wd a) @
       (if receiver_of tx \<noteq> [] \<and> receiver_of tx = a then [value_eth tx] else [])"
  by (auto simp: collect_tx_def Let_def map_of_dd_modify received_of_def sender_stats_def
      receiver_stats_def no_wallet_acc_def split: option.splits)

lemma foldl_collect_keys:
  "fst ` set (foldl collect_tx wd txs) = fst ` set wd \<union> participants txs"
proof (induction txs arbitrary: wd)
  case Nil
  show ?case by (simp add: participants_def)
next
  case (Cons tx txs)
  show ?case
    unfolding foldl_Cons Cons.IH collect_tx_keys
    by (auto simp: participants_def)
qed

lemma foldl_collect_distinct:
  "distinct (map fst wd) \<Longrightarrow> distinct (map fst (foldl collect_tx wd txs))"
  by (induction txs arbitrary: wd) (simp_all add: collect_tx_distinct)

lemma foldl_collect_sent:
  "sent_of (map_of (foldl collect_tx wd txs) a) = sent_of (map_of wd a) @ values_sent txs a"
proof (induction txs arbitrary: wd)
  case Nil
  show ?case by (simp add: values_sent_def)
next
  case (Cons tx txs)
  show ?case
    unfolding foldl_Cons Cons.IH collect_tx_sent by (simp add: values_sent_def)
qed

lemma foldl_collect_received:
  "received_of (map_of (foldl collect_tx wd txs) a) =
     received_of (map_of wd a) @ values_received txs a"
proof (induction txs arbitrary: wd)
  case Nil
  show ?case by (simp add: values_received_def)
next
  case (Cons tx txs)
  show ?case
    unfolding foldl_Cons Cons.IH collect_tx_received by (simp add: values_received_def)
qed

lemma wallet_data_entry:
  assumes "(a, w) \<in> set (foldl collect_tx [] txs)"
  shows "sent_values w = values_sent txs a" "received_values w = values_received txs a"
proof -
  have "distinct (map fst (foldl collect_tx [] txs))"
    by (rule foldl_collect_distinct) simp
  with assms have m: "map_of (foldl collect_tx [] txs) a = Some w"
    by simp
  show "sent_values w = values_sent txs a"
    using foldl_collect_sent [of "[]" txs a] by (simp add: m sent_of_def)
  show "received_values w = values_received txs a"
    using foldl_collect_received [of "[]" txs a] by (simp add: m received_of_def)
qed

lemma profile_of_fields:
  "address (profile_of (a, w)) = a"
  "total_value_sent (profile_of (a, w)) = sum_list (sent_values w)"
  "total_value_received (profile_of (a, w)) = sum_list (received_values w)"
  "inflow_outflow_ratio (profile_of (a, w)) =
     (if 0 < sum_list (received_values w) then sum_list (received_values w) else 1 / 1000) /
     (if 0 < sum_list (sent_values w) then sum_list (sent_values w) else 1 / 1000)"
  by (simp_all add: profile_of_def Let_def)

lemma raw_profiles_mem:
  "p \<in> set (snd (snd (extract_features txs))) \<longleftrightarrow>
     (\<exists>a w. (a, w) \<in> set (foldl collect_tx [] txs) \<and> p = profile_of (a, w))"
  by (cases "txs = []") (auto simp: extract_features_def Let_def)

lemma addresses_extract:
  "distinct (fst (extract_features txs))" "set (fst (extract_features txs)) = participants txs"
proof -
  show "distinct (fst (extract_features txs))"
    by (simp add: extract_features_def Let_def foldl_collect_distinct)
  show "set (fst (extract_features txs)) = participants txs"
    using foldl_collect_keys [of "[]" txs]
    by (cases "txs = []") (simp_all add: extract_features_def Let_def participants_def)
qed

text \<open>
  Claim C8, as the code has it. For every wallet of the extracted profiles the totals are
  the sums of the values it received and sent, and the ratio is the received total
  divided by the sent total, where a total that is not positive is replaced by 0.001. The
  ratio is always greater than 0.
\<close>

theorem inflow_outflow_ratio_guarded:
  "\<forall>p \<in> set (snd (snd (extract_features txs))).
     total_value_received p = sum_list (values_received txs (address p)) \<and>
     total_value_sent p = sum_list (values_sent txs (address p)) \<and>
     inflow_outflow_ratio p =
       (if 0 < total_value_received p then total_value_received p else 1 / 1000) /
       (if 0 < total_value_sent p then total_value_sent p else 1 / 1000) \<and>
     0 < inflow_outflow_ratio p"
proof
  fix p
  assume "p \<in> set (snd (snd (extract_features txs)))"
  then obtain a w where aw: "(a, w) \<in> set (foldl collect_tx [] txs)" and p: "p = profile_of (a, w)"
    unfolding raw_profiles_mem by blast
  note e = wallet_data_entry [OF aw]
  have r: "inflow_outflow_ratio p =
       (if 0 < total_value_received p then total_value_received p else 1 / 1000) /
       (if 0 < total_value_sent p then total_value_sent p else 1 / 1000)"
    unfolding p profile_of_fields ..
  have "0 < (if 0 < total_value_received p then total_value_received p else 1 / 1000)"
    "0 < (if 0 < total_value_sent p then total_value_sent p else 1 / 1000)"
    by simp_all
  then have "0 < inflow_outflow_ratio p"
    unfolding r by (rule divide_pos_pos)
  with r show "total_value_received p = sum_list (values_received txs (address p)) \<and>
     total_value_sent p = sum_list (values_sent txs (address p)) \<and>
     inflow_outflow_ratio p =
       (if 0 < total_value_received p then total_value_received p else 1 / 1000) /
       (if 0 < total_value_sent p then total_value_sent p else 1 / 1000) \<and>
     0 < inflow_outflow_ratio p"
    by (simp add: p profile_of_fields e)
qed

lemmas features_eval = extract_features_def collect_tx_def sender_stats_def receiver_stats_def
  receiver_of_def no_wallet_acc_def Let_def

lemma dust_wallet_data:
  "foldl collect_tx [] dust_example =
     [(''a'', \<lparr>sent_values = [1], received_values = [1 / 2000], counterparties = [''b''],
              timestamps = [0, 60], tx_blocks = [(1, 1), (2, 1)]\<rparr>),
      (''b'', \<lparr>sent_values = [1 / 2000], received_values = [1], counterparties = [''a''],
              timestamps = [0, 60], tx_blocks = [(1, 1), (2, 1)]\<rparr>)]"
  by (simp add: dust_example_def features_eval)

lemma dust_profiles:
  "snd (snd (extract_features dust_example)) =
     [\<lparr>address = ''a'', tx_count = 2, total_value_sent = 1, total_value_received = 1 / 2000,
       avg_value = 2001 / 4000, unique_counterparties = 1, inflow_outflow_ratio = 1 / 2000,
       tx_frequency = 120, burst_score = 1\<rparr>,
      \<lparr>address = ''b'', tx_count = 2, total_value_sent = 1 / 2000, total_value_received = 1,
       avg_value = 2001 / 4000, unique_counterparties = 1, inflow_outflow_ratio = 2000,
       tx_frequency = 120, burst_score = 1\<rparr>]"
proof -
  have "dust_example \<noteq> []"
    by (simp add: dust_example_def)
  then show ?thesis
    unfolding extract_features_def Let_def dust_wallet_data
    by (simp add: profile_of_def max_values_def Let_def)
qed

theorem inflow_outflow_ratio_guarded_witness:
  "map address (snd (snd (extract_features dust_example))) = [''a'', ''b''] \<and>
   map total_value_received (snd (snd (extract_features dust_example))) = [1 / 2000, 1] \<and>
   map total_value_sent (snd (snd (extract_features dust_example))) = [1, 1 / 2000] \<and>
   map inflow_outflow_ratio (snd (snd (extract_features dust_example))) = [1 / 2000, 2000]"
  using inflow_outflow_ratio_guarded [of dust_example]
  unfolding dust_profiles by simp

text \<open>
  The claim as it is written raises both totals to at least 0.001. A wallet that sent 1
  and received 0.0005 would then have the ratio 0.001; the code keeps the positive total
  and gives 0.0005.
\<close>

theorem inflow_outflow_ratio_counterexample:
  "map address (snd (snd (extract_features dust_example))) = [''a'', ''b''] \<and>
   map total_value_received (snd (snd (extract_features dust_example))) = [1 / 2000, 1] \<and>
   map total_value_sent (snd (snd (extract_features dust_example))) = [1, 1 / 2000] \<and>
   map inflow_outflow_ratio (snd (snd (extract_features dust_example))) = [1 / 2000, 2000] \<and>
   max (1 / 2000) (1 / 1000) / max 1 (1 / 1000) = (1 / 1000 :: real) \<and>
   (1 / 2000 :: real) \<noteq> 1 / 1000"
  unfolding dust_profiles by simp

subsection \<open>The composite score and the severity\<close>

lemma detect_default_score:
  assumes "s \<in> set (detect the_flash_loan_detector txs)"
  shows "0 \<le> flash_loan_score s" "\<exists>x. flash_loan_score s = py_round x 2"
proof -
  from assms obtain b w fl where
    m: "s \<in> set (check_flows the_flash_loan_detector b (w, fl))"
    unfolding set_detect by blast
  then have q: "1 \<le> inflow fl" "1 \<le> outflow fl"
    and sc: "flash_loan_score s = py_round ((1 - diff_ratio (inflow fl) (outflow fl)) * 100) 2"
    unfolding check_flows_default by simp_all
  from flash_score_range(1) [OF q] sc show "0 \<le> flash_loan_score s"
    by simp
  from sc show "\<exists>x. flash_loan_score s = py_round x 2"
    by blast
qed

lemma flash_score_cases:
  "get_wallet_flash_score det txs addr = 0 \<or>
   (\<exists>s \<in> set (detect det txs). get_wallet_flash_score det txs addr = flash_loan_score s)"
proof (cases "filter (\<lambda>d. wallet d = addr) (detect det txs) = []")
  case True
  then show ?thesis
    by (simp add: get_wallet_flash_score_def)
next
  case False
  let ?S = "set (map flash_loan_score (filter (\<lambda>d. wallet d = addr) (detect det txs)))"
  from False have "map flash_loan_score (filter (\<lambda>d. wallet d = addr) (detect det txs)) \<noteq> []"
    by simp
  then have "?S \<noteq> {}"
    unfolding set_empty .
  moreover have "finite ?S"
    by (rule finite_set)
  ultimately have "Max ?S \<in> ?S"
    by (rule Max_in [rotated])
  then obtain s where "s \<in> set (detect det txs)" "Max ?S = flash_loan_score s"
    by auto
  with False show ?thesis
    by (auto simp: get_wallet_flash_score_def Let_def)
qed

lemma flash_score_rounded:
  "py_round (get_wallet_flash_score the_flash_loan_detector txs addr) 2 =
     get_wallet_flash_score the_flash_loan_detector txs addr"
proof -
  from flash_score_cases [of the_flash_loan_detector txs addr]
  have "\<exists>x. get_wallet_flash_score the_flash_loan_detector txs addr = py_round x 2"
  proof
    assume "get_wallet_flash_score the_flash_loan_detector txs addr = 0"
    then have "get_wallet_flash_score the_flash_loan_detector txs addr = py_round 0 2"
      by (simp add: py_round_0)
    then show ?thesis ..
  next
    assume "\<exists>s \<in> set (detect the_flash_loan_detector txs).
      get_wallet_flash_score the_flash_loan_detector txs addr = flash_loan_score s"
    then obtain s where "s \<in> set (detect the_flash_loan_detector txs)"
      and e: "get_wallet_flash_score the_flash_loan_detector txs addr = flash_loan_score s"
      by blast
    from detect_default_score(2) [OF this(1)] show ?thesis
      unfolding e .
  qed
  then obtain x where "get_wallet_flash_score the_flash_loan_detector txs addr = py_round x 2" ..
  then show ?thesis
    by (simp add: py_round_idem)
qed

lemma graph_score_rounded: "py_round (get_wallet_graph_score g a) 2 = get_wallet_graph_score g a"
proof -
  have "py_round (min (py_round x 2) 100) 2 = min (py_round x 2) 100" for x
    by (simp add: min_def py_round_idem py_round_100)
  then show ?thesis
    by (simp add: get_wallet_graph_score_def Let_def py_round_0)
qed

lemma foldl_max_cases:
  "foldl (\<lambda>ws pair. if P pair then max ws (key pair) else ws) (acc :: real) ps = acc \<or>
   (\<exists>p \<in> set ps. foldl (\<lambda>ws pair. if P pair then max ws (key pair) else ws) acc ps = key p)"
proof (induction ps arbitrary: acc)
  case Nil
  show ?case by simp
next
  case (Cons p ps)
  show ?case
    using Cons.IH [of "if P p then max acc (key p) else acc"]
    by (auto simp: max_def split: if_splits)
qed

lemma wash_pair_rounded:
  assumes "graph_ok g" "p \<in> set (detect_wash_trading g)"
  shows "\<exists>x. suspicion_score p = py_round x 2"
proof -
  from wash_reported [OF assms] obtain u v a b where "p = pair_of u v a b"
    by blast
  then show ?thesis
    by (auto simp: pair_of_def)
qed

lemma wash_score_rounded:
  assumes "graph_ok g"
  shows "py_round (wash_score_of (detect_wash_trading g) addr) 2 =
     wash_score_of (detect_wash_trading g) addr"
proof -
  from foldl_max_cases [of "\<lambda>pair. wallet_a pair = addr \<or> wallet_b pair = addr"
      suspicion_score 0 "detect_wash_trading g"]
  have "wash_score_of (detect_wash_trading g) addr = 0 \<or>
      (\<exists>p \<in> set (detect_wash_trading g).
         wash_score_of (detect_wash_trading g) addr = suspicion_score p)"
    unfolding wash_score_of_def .
  then have "\<exists>x. wash_score_of (detect_wash_trading g) addr = py_round x 2"
  proof
    assume "wash_score_of (detect_wash_trading g) addr = 0"
    then have "wash_score_of (detect_wash_trading g) addr = py_round 0 2"
      by (simp add: py_round_0)
    then show ?thesis ..
  next
    assume "\<exists>p \<in> set (detect_wash_trading g).
         wash_score_of (detect_wash_trading g) addr = suspicion_score p"
    then obtain p where "p \<in> set (detect_wash_trading g)"
      and e: "wash_score_of (detect_wash_trading g) addr = suspicion_score p"
      by blast
    from wash_pair_rounded [OF assms this(1)] show ?thesis
      unfolding e .
  qed
  then obtain x where "wash_score_of (detect_wash_trading g) addr = py_round x 2" ..
  then show ?thesis
    by (simp add: py_round_idem)
qed

lemma find_upsert:
  "P s \<Longrightarrow> find P (upsert P (\<lambda>_. s) s xs) = Some s"
  by (induction xs) simp_all

lemma compute_risk_result:
  "fst (compute_risk g the_flash_loan_detector d addr) =
     \<lparr>wallet_address = addr,
      composite_score = composite_of RISK_WEIGHTS (ml_score_of d addr)
        (get_wallet_graph_score g addr) (flash_score_of d addr)
        (wash_score_of (detect_wash_trading g) addr),
      ml_anomaly_score = py_round (ml_score_of d addr) 2,
      graph_score = py_round (get_wallet_graph_score g addr) 2,
      risk_flash_loan_score = py_round (flash_score_of d addr) 2,
      wash_trade_score = py_round (wash_score_of (detect_wash_trading g) addr) 2,
      risk_severity = severity_of (composite_of RISK_WEIGHTS (ml_score_of d addr)
        (get_wallet_graph_score g addr) (flash_score_of d addr)
        (wash_score_of (detect_wash_trading g) addr)),
      explanation = explanations_of (ml_score_of d addr) (get_wallet_graph_score g addr)
        (flash_score_of d addr) (wash_score_of (detect_wash_trading g) addr)\<rparr>"
  by (simp add: compute_risk_def Let_def ml_score_of_def flash_score_of_def)

lemma compute_risk_stored:
  "stored_score (snd (compute_risk g the_flash_loan_detector d addr)) addr =
     Some \<lparr>rs_wallet_address = addr,
       rs_composite_score = composite_of RISK_WEIGHTS (ml_score_of d addr)
         (get_wallet_graph_score g addr) (flash_score_of d addr)
         (wash_score_of (detect_wash_trading g) addr),
       rs_ml_anomaly_score = ml_score_of d addr,
       rs_graph_score = get_wallet_graph_score g addr,
       rs_flash_loan_score = flash_score_of d addr,
       rs_wash_trade_score = wash_score_of (detect_wash_trading g) addr,
       rs_explanation = explanations_of (ml_score_of d addr) (get_wallet_graph_score g addr)
         (flash_score_of d addr) (wash_score_of (detect_wash_trading g) addr)\<rparr>"
  by (simp add: compute_risk_def Let_def ml_score_of_def flash_score_of_def stored_score_def
      find_upsert)

lemma compute_risk_keeps:
  "transactions (snd (compute_risk g det d addr)) = transactions d"
  "wallet_profiles (snd (compute_risk g det d addr)) = wallet_profiles d"
  "alerts (snd (compute_risk g det d addr)) = alerts d"
  by (simp_all add: compute_risk_def Let_def)

text \<open>
  Claim C2. The severity that \<open>compute_risk\<close> returns is the severity of its composite
  score, with the lower bounds 75, 50 and 25 inclusive.
\<close>

theorem severity_thresholds:
  "risk_severity (fst (compute_risk g the_flash_loan_detector d addr)) =
     severity_of (composite_score (fst (compute_risk g the_flash_loan_detector d addr))) \<and>
   (severity_of c = Critical \<longleftrightarrow> 75 \<le> c) \<and>
   (severity_of c = High \<longleftrightarrow> 50 \<le> c \<and> c < 75) \<and>
   (severity_of c = Medium \<longleftrightarrow> 25 \<le> c \<and> c < 50) \<and>
   (severity_of c = Low \<longleftrightarrow> c < 25) \<and>
   severity_of 75 = Critical \<and> severity_of (7499 / 100) = High \<and>
   severity_of 50 = High \<and> severity_of (4999 / 100) = Medium \<and>
   severity_of 25 = Medium \<and> severity_of (2499 / 100) = Low"
  by (simp add: compute_risk_result severity_of_def)

lemma one_profile_scores:
  "ml_score_of (one_profile x) ''a'' = x"
  "get_wallet_graph_score [] ''a'' = 0"
  "flash_score_of (one_profile x) ''a'' = 0"
  "wash_score_of (detect_wash_trading []) ''a'' = 0"
  by (simp_all add: ml_score_of_def one_profile_def get_wallet_graph_score_def nodes_def
      flash_score_of_def get_wallet_flash_score_def detect_def group_flows_def sort_desc_def
      wash_score_of_def detect_wash_trading_def edges_def)

lemma one_profile_composite:
  "composite_score (fst (compute_risk [] the_flash_loan_detector (one_profile x) ''a'')) =
     min (py_round (35 / 100 * x) 2) 100"
  unfolding compute_risk_result one_profile_scores
  by (simp add: composite_of_def RISK_WEIGHTS_def)

lemma round_examples:
  "py_round (35 / 100 * 80) 2 = 28"
  "py_round (35 / 100 * (1500 / 7)) 2 = 75"
  "py_round (35 / 100 * (7499 / 35)) 2 = 7499 / 100"
  "py_round 70 2 = 70"
  by (simp_all add: py_round_def round_half_even_def Let_def)

theorem severity_thresholds_witness:
  "composite_score (fst (compute_risk [] the_flash_loan_detector (one_profile (1500 / 7)) ''a''))
     = 75 \<and>
   risk_severity (fst (compute_risk [] the_flash_loan_detector (one_profile (1500 / 7)) ''a''))
     = Critical \<and>
   composite_score (fst (compute_risk [] the_flash_loan_detector (one_profile (7499 / 35)) ''a''))
     = 7499 / 100 \<and>
   risk_severity (fst (compute_risk [] the_flash_loan_detector (one_profile (7499 / 35)) ''a''))
     = High"
proof -
  have c: "composite_score
      (fst (compute_risk [] the_flash_loan_detector (one_profile (1500 / 7)) ''a'')) = 75"
    "composite_score
      (fst (compute_risk [] the_flash_loan_detector (one_profile (7499 / 35)) ''a'')) = 7499 / 100"
    unfolding one_profile_composite round_examples by simp_all
  from severity_thresholds [of "[]" "one_profile (1500 / 7)" "''a''" 75]
    severity_thresholds [of "[]" "one_profile (7499 / 35)" "''a''" "7499 / 100"] c
  show ?thesis
    by simp
qed

subsection \<open>The detection pipeline\<close>

lemma risk_of_indep:
  assumes "transactions d = transactions d'" "wallet_profiles d = wallet_profiles d'"
  shows "risk_of g d addr = risk_of g d' addr"
  unfolding risk_of_def compute_risk_result
  using assms by (simp add: ml_score_of_def flash_score_of_def)

lemma alert_of_indep:
  assumes "transactions d = transactions d'" "wallet_profiles d = wallet_profiles d'"
  shows "alert_of g d p = alert_of g d' p"
  unfolding alert_of_def risk_of_indep [OF assms] ..

lemma score_profile_step:
  "transactions (fst (score_profile g the_flash_loan_detector (d, n) p)) = transactions d"
  "wallet_profiles (fst (score_profile g the_flash_loan_detector (d, n) p)) = wallet_profiles d"
  "alerts (fst (score_profile g the_flash_loan_detector (d, n) p)) = alerts d @ alert_of g d p"
  "snd (score_profile g the_flash_loan_detector (d, n) p) = n + length (alert_of g d p)"
  by (simp_all add: score_profile_def alert_of_def risk_of_def compute_risk_keeps
      case_prod_beta)

lemma score_profiles_fold:
  "transactions (fst (foldl (score_profile g the_flash_loan_detector) (d, n) ps)) = transactions d \<and>
   wallet_profiles (fst (foldl (score_profile g the_flash_loan_detector) (d, n) ps)) = wallet_profiles d \<and>
   alerts (fst (foldl (score_profile g the_flash_loan_detector) (d, n) ps)) =
     alerts d @ concat (map (alert_of g d) ps) \<and>
   snd (foldl (score_profile g the_flash_loan_detector) (d, n) ps) =
     n + length (concat (map (alert_of g d) ps))"
proof (induction ps arbitrary: d n)
  case Nil
  show ?case by simp
next
  case (Cons p ps)
  obtain d1 n1 where st: "score_profile g the_flash_loan_detector (d, n) p = (d1, n1)"
    by (cases "score_profile g the_flash_loan_detector (d, n) p")
  from score_profile_step [of g d n p] have
    k: "transactions d1 = transactions d" "wallet_profiles d1 = wallet_profiles d"
    and a: "alerts d1 = alerts d @ alert_of g d p" and c: "n1 = n + length (alert_of g d p)"
    by (simp_all add: st)
  have same: "map (alert_of g d1) ps = map (alert_of g d) ps"
    using alert_of_indep [OF k] by simp
  show ?case
    using Cons.IH [of d1 n1] by (simp add: st k a c same)
qed

lemma update_wallet_profiles_keeps:
  "transactions (update_wallet_profiles d preds) = transactions d \<and>
   alerts (update_wallet_profiles d preds) = alerts d \<and>
   risk_scores (update_wallet_profiles d preds) = risk_scores d"
  unfolding update_wallet_profiles_def
  by (induction preds arbitrary: d) simp_all

lemma run_full_detection_parts:
  "graph_after sk k nx eng d = build_graph (transactions d)"
  "transactions (db_after sk k nx eng d) = transactions d"
  "wallet_profiles (db_after sk k nx eng d) =
     wallet_profiles (update_wallet_profiles d
       (fst (predict sk k (snd (train sk k eng (sort_key timestamp (transactions d))))
          (sort_key timestamp (transactions d)))))"
  "alerts (db_after sk k nx eng d) =
     alerts d @ concat (map (alert_of (graph_after sk k nx eng d) (db_after sk k nx eng d))
       (wallet_profiles (db_after sk k nx eng d)))"
proof -
  let ?txs = "sort_key timestamp (transactions d)"
  let ?preds = "fst (predict sk k (snd (train sk k eng ?txs)) ?txs)"
  let ?d1 = "update_wallet_profiles d ?preds"
  let ?g = "build_graph (transactions d)"
  let ?final = "foldl (score_profile ?g the_flash_loan_detector) (?d1, 0) (wallet_profiles ?d1)"
  note k = update_wallet_profiles_keeps [of d ?preds]
  have g: "graph_after sk k nx eng d = ?g"
    by (simp add: graph_after_def run_full_detection_def Let_def k case_prod_beta)
  have dd: "db_after sk k nx eng d = fst ?final"
    by (simp add: db_after_def run_full_detection_def Let_def k case_prod_beta)
  note f = score_profiles_fold [of ?g ?d1 0 "wallet_profiles ?d1"]
  show "graph_after sk k nx eng d = ?g"
    by (rule g)
  show t: "transactions (db_after sk k nx eng d) = transactions d"
    unfolding dd using f k by simp
  show w: "wallet_profiles (db_after sk k nx eng d) = wallet_profiles ?d1"
    unfolding dd using f by simp
  have "alert_of ?g ?d1 = alert_of ?g (db_after sk k nx eng d)"
    using alert_of_indep [of ?d1 "db_after sk k nx eng d" ?g] t w k by auto
  then show "alerts (db_after sk k nx eng d) =
     alerts d @ concat (map (alert_of (graph_after sk k nx eng d) (db_after sk k nx eng d))
       (wallet_profiles (db_after sk k nx eng d)))"
    unfolding g w unfolding dd using f k by simp
qed

lemma risk_of_fields:
  "composite_score (risk_of g d addr) =
     composite_of RISK_WEIGHTS (ml_score_of d addr) (get_wallet_graph_score g addr)
       (flash_score_of d addr) (wash_score_of (detect_wash_trading g) addr)"
  "risk_flash_loan_score (risk_of g d addr) = flash_score_of d addr"
  "graph_score (risk_of g d addr) = get_wallet_graph_score g addr"
  "risk_severity (risk_of g d addr) = severity_of (composite_score (risk_of g d addr))"
  by (simp_all add: risk_of_def compute_risk_result graph_score_rounded flash_score_rounded
      flash_score_of_def)

lemma risk_of_wash:
  "graph_ok g \<Longrightarrow> wash_trade_score (risk_of g d addr) = wash_score_of (detect_wash_trading g) addr"
  by (simp add: risk_of_def compute_risk_result wash_score_rounded)

lemma alert_type_priority:
  assumes "graph_ok g"
  shows "alert_type_of (risk_of g d addr) =
     type_by_priority (flash_score_of d addr) (wash_score_of (detect_wash_trading g) addr)
       (get_wallet_graph_score g addr)"
  by (simp add: alert_type_of_def type_by_priority_def risk_of_fields risk_of_wash [OF assms])

lemma alert_of_mem:
  "a \<in> set (alert_of g d p) \<longleftrightarrow>
     40 \<le> composite_score (risk_of g d (address p)) \<and>
     a = \<lparr>al_wallet_address = address p,
          al_alert_type = alert_type_of (risk_of g d (address p)),
          al_severity = risk_severity (risk_of g d (address p)),
          al_risk_score = composite_score (risk_of g d (address p)),
          al_explanation = explanation (risk_of g d (address p))\<rparr>"
  by (auto simp: alert_of_def)

lemma new_alerts_run:
  "new_alerts d (db_after sk k nx eng d) =
     concat (map (alert_of (graph_after sk k nx eng d) (db_after sk k nx eng d))
       (wallet_profiles (db_after sk k nx eng d)))"
  unfolding new_alerts_def by (subst run_full_detection_parts(4)) simp

lemma length_concat_alerts:
  "length (concat (map (alert_of g d) ps)) =
     length (filter (\<lambda>p. 40 \<le> composite_score (risk_of g d (address p))) ps)"
  by (induction ps) (simp_all add: alert_of_def)

text \<open>
  Claim C3. After a run of the pipeline, a profiled wallet has an alert among the alerts
  the run added exactly when its composite score is at least 40. Every added alert belongs
  to a profiled wallet, carries its composite score, and has the type given by the
  priority: flash-loan score above 50, else wash-trade score above 40, else graph score
  above 30, else anomaly. The run adds one alert for each profile row at or above 40.
\<close>

theorem alerts_by_threshold_and_priority:
  "(\<forall>p \<in> set (wallet_profiles (db_after sk k nx eng d)).
      (\<exists>a \<in> set (new_alerts d (db_after sk k nx eng d)). al_wallet_address a = address p) \<longleftrightarrow>
      40 \<le> composite_score
        (risk_of (graph_after sk k nx eng d) (db_after sk k nx eng d) (address p))) \<and>
   (\<forall>a \<in> set (new_alerts d (db_after sk k nx eng d)).
      (\<exists>p \<in> set (wallet_profiles (db_after sk k nx eng d)). address p = al_wallet_address a) \<and>
      al_risk_score a = composite_score
        (risk_of (graph_after sk k nx eng d) (db_after sk k nx eng d) (al_wallet_address a)) \<and>
      al_alert_type a =
        type_by_priority (flash_score_of (db_after sk k nx eng d) (al_wallet_address a))
          (wash_score_of (detect_wash_trading (graph_after sk k nx eng d)) (al_wallet_address a))
          (get_wallet_graph_score (graph_after sk k nx eng d) (al_wallet_address a))) \<and>
   length (new_alerts d (db_after sk k nx eng d)) =
     length (filter (\<lambda>p. 40 \<le> composite_score
        (risk_of (graph_after sk k nx eng d) (db_after sk k nx eng d) (address p)))
       (wallet_profiles (db_after sk k nx eng d)))"
proof -
  let ?d = "db_after sk k nx eng d" and ?g = "graph_after sk k nx eng d"
  have ok: "graph_ok ?g"
    unfolding run_full_detection_parts(1) by (rule graph_ok_build_graph)
  have mem: "a \<in> set (new_alerts d ?d) \<longleftrightarrow>
      (\<exists>p \<in> set (wallet_profiles ?d). a \<in> set (alert_of ?g ?d p))" for a
    unfolding new_alerts_run by auto
  have one: "(\<exists>a \<in> set (new_alerts d ?d). al_wallet_address a = address p) \<longleftrightarrow>
      40 \<le> composite_score (risk_of ?g ?d (address p))"
    if p: "p \<in> set (wallet_profiles ?d)" for p
  proof
    assume "\<exists>a \<in> set (new_alerts d ?d). al_wallet_address a = address p"
    then obtain a where "a \<in> set (new_alerts d ?d)" and ap: "al_wallet_address a = address p"
      by blast
    then obtain q where q: "q \<in> set (wallet_profiles ?d)" "a \<in> set (alert_of ?g ?d q)"
      unfolding mem by blast
    with ap have "address q = address p" "40 \<le> composite_score (risk_of ?g ?d (address q))"
      unfolding alert_of_mem by auto
    then show "40 \<le> composite_score (risk_of ?g ?d (address p))"
      by simp
  next
    assume "40 \<le> composite_score (risk_of ?g ?d (address p))"
    then have "alert_of ?g ?d p \<noteq> []"
      by (simp add: alert_of_def)
    then obtain a where a: "a \<in> set (alert_of ?g ?d p)"
      by (cases "alert_of ?g ?d p") auto
    then have "al_wallet_address a = address p"
      unfolding alert_of_mem by simp
    moreover from a p have "a \<in> set (new_alerts d ?d)"
      unfolding mem by blast
    ultimately show "\<exists>a \<in> set (new_alerts d ?d). al_wallet_address a = address p"
      by blast
  qed
  have two: "(\<exists>p \<in> set (wallet_profiles ?d). address p = al_wallet_address a) \<and>
      al_risk_score a = composite_score (risk_of ?g ?d (al_wallet_address a)) \<and>
      al_alert_type a =
        type_by_priority (flash_score_of ?d (al_wallet_address a))
          (wash_score_of (detect_wash_trading ?g) (al_wallet_address a))
          (get_wallet_graph_score ?g (al_wallet_address a))"
    if "a \<in> set (new_alerts d ?d)" for a
  proof -
    from that obtain p where p: "p \<in> set (wallet_profiles ?d)" "a \<in> set (alert_of ?g ?d p)"
      unfolding mem by blast
    from p(2) have "al_wallet_address a = address p"
      "al_risk_score a = composite_score (risk_of ?g ?d (address p))"
      "al_alert_type a = alert_type_of (risk_of ?g ?d (address p))"
      unfolding alert_of_mem by simp_all
    with p(1) show ?thesis
      by (auto simp: alert_type_priority [OF ok])
  qed
  have three: "length (new_alerts d ?d) =
     length (filter (\<lambda>p. 40 \<le> composite_score (risk_of ?g ?d (address p))) (wallet_profiles ?d))"
    unfolding new_alerts_run by (rule length_concat_alerts)
  from one two three show ?thesis
    by blast
qed

lemma wallets_count: "length (fst (extract_features txs)) = card (participants txs)"
  using distinct_card [OF addresses_extract(1) [of txs]] addresses_extract(2) [of txs]
  by simp

lemma train_few:
  assumes "card (participants txs) < 5"
  shows "train sk k eng txs = (Insufficient_data (card (participants txs)), eng)"
  using assms wallets_count [of txs]
  by (cases "extract_features txs") (simp add: train_def)

lemma predict_few:
  assumes "card (participants txs) < 5"
  shows "predict sk k eng txs = ([], eng)"
  using assms wallets_count [of txs]
  by (cases "extract_features txs") (simp add: predict_def)

lemma participants_sort_key: "participants (sort_key f txs) = participants txs"
  by (simp add: participants_def)

lemma run_few:
  assumes "card (participants (transactions d)) < 5"
  shows "fst (run_full_detection sk k nx the_flash_loan_detector eng d) =
      \<lparr>ml_training = Insufficient_data (card (participants (transactions d))),
       wallets_profiled = 0,
       graph_nodes = number_of_nodes (build_graph (transactions d)),
       graph_edges = number_of_edges (build_graph (transactions d)),
       cycles_detected = length (detect_cycles nx (build_graph (transactions d)) 4),
       wash_trade_pairs = length (detect_wash_trading (build_graph (transactions d))),
       flash_loan_events =
         length (detect the_flash_loan_detector (sort_key block_number (transactions d))),
       high_centrality_wallets = length (compute_centrality nx (build_graph (transactions d)) 20),
       alerts_generated = length (new_alerts d (db_after sk k nx eng d))\<rparr>"
    and "fst (snd (run_full_detection sk k nx the_flash_loan_detector eng d)) = eng"
    and "wallet_profiles (db_after sk k nx eng d) = wallet_profiles d"
proof -
  let ?txs = "sort_key timestamp (transactions d)"
  from assms have few: "card (participants ?txs) < 5"
    by (simp only: participants_sort_key)
  note t = train_few [OF few, of sk k eng] and p = predict_few [OF few, of sk k eng]
  have c: "card (participants ?txs) = card (participants (transactions d))"
    by (simp only: participants_sort_key)
  show w: "wallet_profiles (db_after sk k nx eng d) = wallet_profiles d"
    by (simp add: run_full_detection_parts(3) t p update_wallet_profiles_def)
  show "fst (snd (run_full_detection sk k nx the_flash_loan_detector eng d)) = eng"
    by (simp add: run_full_detection_def Let_def t p)
  have n: "snd (foldl (score_profile (build_graph (transactions d)) the_flash_loan_detector)
        (d, 0) (wallet_profiles d)) = length (new_alerts d (db_after sk k nx eng d))"
  proof -
    have "alert_of (build_graph (transactions d)) (db_after sk k nx eng d) q =
        alert_of (build_graph (transactions d)) d q" for q
      by (rule alert_of_indep) (simp_all add: run_full_detection_parts(2) w)
    then have same: "map (alert_of (build_graph (transactions d)) (db_after sk k nx eng d)) ps =
        map (alert_of (build_graph (transactions d)) d) ps" for ps
      by simp
    show ?thesis
      unfolding new_alerts_run run_full_detection_parts(1) w same
      using score_profiles_fold [of "build_graph (transactions d)" d 0 "wallet_profiles d"]
      by simp
  qed
  show "fst (run_full_detection sk k nx the_flash_loan_detector eng d) =
      \<lparr>ml_training = Insufficient_data (card (participants (transactions d))),
       wallets_profiled = 0,
       graph_nodes = number_of_nodes (build_graph (transactions d)),
       graph_edges = number_of_edges (build_graph (transactions d)),
       cycles_detected = length (detect_cycles nx (build_graph (transactions d)) 4),
       wash_trade_pairs = length (detect_wash_trading (build_graph (transactions d))),
       flash_loan_events =
         length (detect the_flash_loan_detector (sort_key block_number (transactions d))),
       high_centrality_wallets = length (compute_centrality nx (build_graph (transactions d)) 20),
       alerts_generated = length (new_alerts d (db_after sk k nx eng d))\<rparr>"
    by (simp add: run_full_detection_def Let_def t p c update_wallet_profiles_def n)
qed

lemma find_upsert_other:
  assumes "\<not> Q s" "\<And>x. P x \<Longrightarrow> \<not> Q x"
  shows "find Q (upsert P (\<lambda>_. s) s xs) = find Q xs"
  using assms by (induction xs) auto

lemma stored_score_compute_risk:
  "stored_score (snd (compute_risk g the_flash_loan_detector d a)) b =
     (if b = a then stored_score (snd (compute_risk g the_flash_loan_detector d a)) a
      else stored_score d b)"
proof (cases "b = a")
  case True
  then show ?thesis by simp
next
  case False
  then show ?thesis
    by (simp add: stored_score_def compute_risk_def Let_def find_upsert_other)
qed

text \<open>The row that \<^verbatim>\<open>compute_risk\<close> stores for an address.\<close>

lemma stored_row_indep:
  assumes "transactions d = transactions d'" "wallet_profiles d = wallet_profiles d'"
  shows "stored_score (snd (compute_risk g the_flash_loan_detector d a)) a =
     stored_score (snd (compute_risk g the_flash_loan_detector d' a)) a"
  unfolding compute_risk_stored using assms by (simp add: ml_score_of_def flash_score_of_def)

lemma score_profile_stored:
  "stored_score (fst (score_profile g the_flash_loan_detector (d, n) p)) b =
     (if b = address p
      then stored_score (snd (compute_risk g the_flash_loan_detector d (address p))) (address p)
      else stored_score d b)"
  using stored_score_compute_risk [of g d "address p" b]
  by (simp add: score_profile_def case_prod_beta stored_score_def)

lemma score_profiles_stored:
  "stored_score (fst (foldl (score_profile g the_flash_loan_detector) (d, n) ps)) b =
     (if b \<in> address ` set ps
      then stored_score (snd (compute_risk g the_flash_loan_detector d b)) b
      else stored_score d b)"
proof (induction ps arbitrary: d n)
  case Nil
  show ?case by simp
next
  case (Cons p ps)
  obtain d1 n1 where st: "score_profile g the_flash_loan_detector (d, n) p = (d1, n1)"
    by (cases "score_profile g the_flash_loan_detector (d, n) p")
  from score_profile_step [of g d n p] have
    k: "transactions d1 = transactions d" "wallet_profiles d1 = wallet_profiles d"
    by (simp_all add: st)
  have s1: "stored_score d1 b =
     (if b = address p
      then stored_score (snd (compute_risk g the_flash_loan_detector d b)) b
      else stored_score d b)"
    using score_profile_stored [of g d n p b] by (simp add: st)
  have same: "stored_score (snd (compute_risk g the_flash_loan_detector d1 b)) b =
      stored_score (snd (compute_risk g the_flash_loan_detector d b)) b"
    by (rule stored_row_indep [OF k])
  have "stored_score (fst (foldl (score_profile g the_flash_loan_detector) (d, n) (p # ps))) b =
     (if b \<in> address ` set ps
      then stored_score (snd (compute_risk g the_flash_loan_detector d1 b)) b
      else stored_score d1 b)"
    using Cons.IH [of d1 n1] by (simp add: st)
  also have "\<dots> = (if b \<in> address ` set (p # ps)
      then stored_score (snd (compute_risk g the_flash_loan_detector d b)) b
      else stored_score d b)"
    unfolding same s1 by auto
  finally show ?case .
qed

lemma db_after_fold:
  "db_after sk k nx eng d =
     fst (foldl (score_profile (build_graph (transactions d)) the_flash_loan_detector)
       (update_wallet_profiles d
          (fst (predict sk k (snd (train sk k eng (sort_key timestamp (transactions d))))
             (sort_key timestamp (transactions d)))), 0)
       (wallet_profiles (update_wallet_profiles d
          (fst (predict sk k (snd (train sk k eng (sort_key timestamp (transactions d))))
             (sort_key timestamp (transactions d)))))))"
  by (simp add: db_after_def run_full_detection_def Let_def update_wallet_profiles_keeps
      case_prod_beta)

lemma run_few_db:
  assumes "card (participants (transactions d)) < 5"
  shows "db_after sk k nx eng d =
      fst (foldl (score_profile (build_graph (transactions d)) the_flash_loan_detector)
        (d, 0) (wallet_profiles d))"
proof -
  let ?txs = "sort_key timestamp (transactions d)"
  from assms have few: "card (participants ?txs) < 5"
    by (simp only: participants_sort_key)
  note t = train_few [OF few, of sk k eng] and p = predict_few [OF few, of sk k eng]
  show ?thesis
    by (simp add: db_after_fold t p update_wallet_profiles_def)
qed

lemma run_few_scores:
  assumes "card (participants (transactions d)) < 5"
  shows "alerts (db_after sk k nx eng d) =
      alerts d @ concat (map (alert_of (build_graph (transactions d)) d) (wallet_profiles d))"
    and "stored_score (db_after sk k nx eng d) b =
      (if b \<in> address ` set (wallet_profiles d)
       then stored_score
         (snd (compute_risk (build_graph (transactions d)) the_flash_loan_detector d b)) b
       else stored_score d b)"
    and "length (new_alerts d (db_after sk k nx eng d)) =
      length (concat (map (alert_of (build_graph (transactions d)) d) (wallet_profiles d)))"
proof -
  show a: "alerts (db_after sk k nx eng d) =
      alerts d @ concat (map (alert_of (build_graph (transactions d)) d) (wallet_profiles d))"
    unfolding run_few_db [OF assms]
    using score_profiles_fold [of "build_graph (transactions d)" d 0 "wallet_profiles d"]
    by simp
  show "stored_score (db_after sk k nx eng d) b =
      (if b \<in> address ` set (wallet_profiles d)
       then stored_score
         (snd (compute_risk (build_graph (transactions d)) the_flash_loan_detector d b)) b
       else stored_score d b)"
    unfolding run_few_db [OF assms] by (rule score_profiles_stored)
  show "length (new_alerts d (db_after sk k nx eng d)) =
      length (concat (map (alert_of (build_graph (transactions d)) d) (wallet_profiles d)))"
    by (simp add: new_alerts_def a)
qed

lemma find_None_address:
  "find (\<lambda>p. address p = addr) ps = None \<longleftrightarrow> addr \<notin> address ` set ps"
  by (auto simp: find_None_iff)

text \<open>
  Claim C9. For a transaction set with fewer than five distinct wallets, \<open>train\<close> returns
  the status of insufficient data and leaves the engine as it was, and \<open>predict\<close> returns
  the empty list; the number of feature vectors is the number of distinct wallets. A run of
  the pipeline on such a database does not stop there: it reports that status and no
  wallet profiled, keeps the engine and the stored profiles, builds the graph, runs the
  detectors, stores a risk score for every stored profile (with the anomaly score of that
  profile) and appends the alerts of the profiles at or above 40. A wallet without profile
  is not scored by the run, and its risk is computed with the anomaly component 0, after
  the run as on any database.
\<close>

theorem insufficient_data_skip:
  "(card (participants txs) < 5 \<longrightarrow>
      train sk k eng txs = (Insufficient_data (card (participants txs)), eng) \<and>
      predict sk k eng txs = ([], eng)) \<and>
   length (fst (extract_features txs)) = card (participants txs) \<and>
   (card (participants (transactions d)) < 5 \<longrightarrow>
      fst (run_full_detection sk k nx the_flash_loan_detector eng d) =
        \<lparr>ml_training = Insufficient_data (card (participants (transactions d))),
         wallets_profiled = 0,
         graph_nodes = number_of_nodes (build_graph (transactions d)),
         graph_edges = number_of_edges (build_graph (transactions d)),
         cycles_detected = length (detect_cycles nx (build_graph (transactions d)) 4),
         wash_trade_pairs = length (detect_wash_trading (build_graph (transactions d))),
         flash_loan_events =
           length (detect the_flash_loan_detector (sort_key block_number (transactions d))),
         high_centrality_wallets =
           length (compute_centrality nx (build_graph (transactions d)) 20),
         alerts_generated =
           length (concat (map (alert_of (build_graph (transactions d)) d)
             (wallet_profiles d)))\<rparr> \<and>
      fst (snd (run_full_detection sk k nx the_flash_loan_detector eng d)) = eng \<and>
      graph_after sk k nx eng d = build_graph (transactions d) \<and>
      transactions (db_after sk k nx eng d) = transactions d \<and>
      wallet_profiles (db_after sk k nx eng d) = wallet_profiles d \<and>
      alerts (db_after sk k nx eng d) =
        alerts d @ concat (map (alert_of (build_graph (transactions d)) d) (wallet_profiles d)) \<and>
      (\<forall>p \<in> set (wallet_profiles d).
         \<exists>row. stored_score (db_after sk k nx eng d) (address p) = Some row \<and>
           rs_wallet_address row = address p \<and>
           rs_ml_anomaly_score row = ml_score_of d (address p) \<and>
           rs_composite_score row =
             composite_score (risk_of (build_graph (transactions d)) d (address p))) \<and>
      (\<forall>b. find (\<lambda>p. address p = b) (wallet_profiles d) = None \<longrightarrow>
         stored_score (db_after sk k nx eng d) b = stored_score d b \<and>
         ml_anomaly_score
           (risk_of (graph_after sk k nx eng d) (db_after sk k nx eng d) b) = 0)) \<and>
   (find (\<lambda>p. address p = addr) (wallet_profiles d) = None \<longrightarrow>
      ml_anomaly_score (risk_of g d addr) = 0 \<and>
      composite_score (risk_of g d addr) =
        composite_of RISK_WEIGHTS 0 (get_wallet_graph_score g addr) (flash_score_of d addr)
          (wash_score_of (detect_wash_trading g) addr))"
proof -
  have unprofiled: "ml_anomaly_score (risk_of g' d' b) = 0 \<and>
      composite_score (risk_of g' d' b) =
        composite_of RISK_WEIGHTS 0 (get_wallet_graph_score g' b) (flash_score_of d' b)
          (wash_score_of (detect_wash_trading g') b)"
    if "find (\<lambda>p. address p = b) (wallet_profiles d') = None" for g' d' b
  proof -
    from that have m: "ml_score_of d' b = 0"
      by (simp add: ml_score_of_def)
    show ?thesis
      by (simp add: risk_of_def compute_risk_result m py_round_0)
  qed
  have pipeline: "fst (run_full_detection sk k nx the_flash_loan_detector eng d) =
        \<lparr>ml_training = Insufficient_data (card (participants (transactions d))),
         wallets_profiled = 0,
         graph_nodes = number_of_nodes (build_graph (transactions d)),
         graph_edges = number_of_edges (build_graph (transactions d)),
         cycles_detected = length (detect_cycles nx (build_graph (transactions d)) 4),
         wash_trade_pairs = length (detect_wash_trading (build_graph (transactions d))),
         flash_loan_events =
           length (detect the_flash_loan_detector (sort_key block_number (transactions d))),
         high_centrality_wallets =
           length (compute_centrality nx (build_graph (transactions d)) 20),
         alerts_generated =
           length (concat (map (alert_of (build_graph (transactions d)) d)
             (wallet_profiles d)))\<rparr> \<and>
      fst (snd (run_full_detection sk k nx the_flash_loan_detector eng d)) = eng \<and>
      graph_after sk k nx eng d = build_graph (transactions d) \<and>
      transactions (db_after sk k nx eng d) = transactions d \<and>
      wallet_profiles (db_after sk k nx eng d) = wallet_profiles d \<and>
      alerts (db_after sk k nx eng d) =
        alerts d @ concat (map (alert_of (build_graph (transactions d)) d) (wallet_profiles d)) \<and>
      (\<forall>p \<in> set (wallet_profiles d).
         \<exists>row. stored_score (db_after sk k nx eng d) (address p) = Some row \<and>
           rs_wallet_address row = address p \<and>
           rs_ml_anomaly_score row = ml_score_of d (address p) \<and>
           rs_composite_score row =
             composite_score (risk_of (build_graph (transactions d)) d (address p))) \<and>
      (\<forall>b. find (\<lambda>p. address p = b) (wallet_profiles d) = None \<longrightarrow>
         stored_score (db_after sk k nx eng d) b = stored_score d b \<and>
         ml_anomaly_score
           (risk_of (graph_after sk k nx eng d) (db_after sk k nx eng d) b) = 0)"
    if few: "card (participants (transactions d)) < 5"
  proof (intro conjI ballI allI impI)
    note w = run_few(3) [OF few, of sk k nx eng]
    show "fst (run_full_detection sk k nx the_flash_loan_detector eng d) =
        \<lparr>ml_training = Insufficient_data (card (participants (transactions d))),
         wallets_profiled = 0,
         graph_nodes = number_of_nodes (build_graph (transactions d)),
         graph_edges = number_of_edges (build_graph (transactions d)),
         cycles_detected = length (detect_cycles nx (build_graph (transactions d)) 4),
         wash_trade_pairs = length (detect_wash_trading (build_graph (transactions d))),
         flash_loan_events =
           length (detect the_flash_loan_detector (sort_key block_number (transactions d))),
         high_centrality_wallets =
           length (compute_centrality nx (build_graph (transactions d)) 20),
         alerts_generated =
           length (concat (map (alert_of (build_graph (transactions d)) d)
             (wallet_profiles d)))\<rparr>"
      unfolding run_few(1) [OF few] run_few_scores(3) [OF few] ..
    show "fst (snd (run_full_detection sk k nx the_flash_loan_detector eng d)) = eng"
      by (rule run_few(2) [OF few])
    show "graph_after sk k nx eng d = build_graph (transactions d)"
      by (rule run_full_detection_parts(1))
    show "transactions (db_after sk k nx eng d) = transactions d"
      by (rule run_full_detection_parts(2))
    show "wallet_profiles (db_after sk k nx eng d) = wallet_profiles d"
      by (rule w)
    show "alerts (db_after sk k nx eng d) =
        alerts d @ concat (map (alert_of (build_graph (transactions d)) d) (wallet_profiles d))"
      by (rule run_few_scores(1) [OF few])
  next
    fix p
    assume p: "p \<in> set (wallet_profiles d)"
    then have "address p \<in> address ` set (wallet_profiles d)"
      by simp
    then have "stored_score (db_after sk k nx eng d) (address p) =
        stored_score (snd (compute_risk (build_graph (transactions d)) the_flash_loan_detector
          d (address p))) (address p)"
      by (simp add: run_few_scores(2) [OF few])
    then show "\<exists>row. stored_score (db_after sk k nx eng d) (address p) = Some row \<and>
           rs_wallet_address row = address p \<and>
           rs_ml_anomaly_score row = ml_score_of d (address p) \<and>
           rs_composite_score row =
             composite_score (risk_of (build_graph (transactions d)) d (address p))"
      by (simp add: compute_risk_stored risk_of_fields)
  next
    fix b
    assume n: "find (\<lambda>p. address p = b) (wallet_profiles d) = None"
    then have "b \<notin> address ` set (wallet_profiles d)"
      unfolding find_None_address .
    then show "stored_score (db_after sk k nx eng d) b = stored_score d b"
      by (simp add: run_few_scores(2) [OF few])
    from n have "find (\<lambda>p. address p = b) (wallet_profiles (db_after sk k nx eng d)) = None"
      by (simp add: run_few(3) [OF few])
    from unprofiled [OF this]
    show "ml_anomaly_score (risk_of (graph_after sk k nx eng d) (db_after sk k nx eng d) b) = 0"
      by simp
  qed
  from unprofiled [of addr d g] pipeline train_few [of txs sk k eng] predict_few [of txs sk k eng]
    wallets_count [of txs]
  show ?thesis
    by blast
qed

lemma flash_example_graph:
  "build_graph flash_example =
     [(''a'', [(''b'', \<lparr>weight = 10, count = 1, blocks = 1\<rparr>)]),
      (''b'', [(''a'', \<lparr>weight = 10, count = 1, blocks = 1\<rparr>)])]"
  by (simp add: flash_example_def graph_eval)

lemma flash_example_sorted: "sort_key block_number flash_example = flash_example"
  by (simp add: flash_example_def)

lemma flash_example_wallets: "card (participants flash_example) = 2"
proof -
  have "fst (extract_features flash_example) = [''a'', ''b'']"
    by (simp add: flash_example_def features_eval)
  with wallets_count [of flash_example] show ?thesis
    by simp
qed

lemma pipeline_example_fields:
  "transactions pipeline_example = flash_example"
  "alerts pipeline_example = []"
  "map address (wallet_profiles pipeline_example) = [''a'']"
  by (simp_all add: pipeline_example_def)

lemma example_ml: "ml_score_of pipeline_example ''a'' = 100" "ml_score_of pipeline_example ''b'' = 0"
  by (simp_all add: ml_score_of_def pipeline_example_def)

lemma example_flash: "flash_score_of pipeline_example ''a'' = 100"
  unfolding flash_score_of_def pipeline_example_fields flash_example_sorted
    get_wallet_flash_score_def flash_example_detect
  by simp

lemma example_wash_pairs:
  "detect_wash_trading (build_graph flash_example) =
     [\<lparr>wallet_a = ''a'', wallet_b = ''b'', value_a_to_b = 10, value_b_to_a = 10,
       value_similarity = 1, tx_count_a_to_b = 1, tx_count_b_to_a = 1, suspicion_score = 60\<rparr>]"
  unfolding flash_example_graph by (simp add: wash_eval)

lemma example_wash: "wash_score_of (detect_wash_trading (build_graph flash_example)) ''a'' = 60"
  unfolding example_wash_pairs by (simp add: wash_score_of_def)

lemma example_graph_score: "get_wallet_graph_score (build_graph flash_example) ''a'' = 100"
proof -
  let ?g = "build_graph flash_example"
  have n: "nodes ?g = [''a'', ''b'']"
    unfolding flash_example_graph by (simp add: nodes_def)
  have s: "successors ?g ''a'' = [''b'']"
    unfolding flash_example_graph by (simp add: successors_def adj_def)
  have p: "predecessors ?g ''a'' = [''b'']"
    unfolding predecessors_def n
    unfolding flash_example_graph by (simp add: has_edge_def get_edge_def adj_def)
  have d: "degree ?g ''a'' = 2"
    by (simp add: degree_def s p)
  have "number_of_nodes ?g = 2"
    unfolding flash_example_graph by (simp add: number_of_nodes_def)
  then have c: "degree_centrality ?g ''a'' = 2"
    by (simp add: degree_centrality_def n d)
  have b: "filter (\<lambda>nbr. has_edge ?g ''a'' nbr \<and> has_edge ?g nbr ''a'') [''b''] = [''b'']"
    unfolding flash_example_graph by (simp add: has_edge_def get_edge_def adj_def)
  have r: "py_round 103 2 = 103"
    using py_round_of_int [of 103 2] by simp
  show ?thesis
    unfolding get_wallet_graph_score_def Let_def s p c d
    using b r by (simp add: n)
qed

lemma example_risk:
  "risk_of (build_graph flash_example) pipeline_example ''a'' =
     \<lparr>wallet_address = ''a'', composite_score = 92, ml_anomaly_score = 100, graph_score = 100,
      risk_flash_loan_score = 100, wash_trade_score = 60, risk_severity = Critical,
      explanation = [ML_anomaly_high 100, Graph_connectivity 100, Flash_loan_activity 100,
        Wash_trading 60]\<rparr>"
proof -
  have r: "py_round 92 2 = 92" "py_round 100 2 = 100" "py_round 60 2 = 60"
    using py_round_of_int [of 92 2] py_round_of_int [of 100 2] py_round_of_int [of 60 2]
    by simp_all
  show ?thesis
    unfolding risk_of_def compute_risk_result example_ml example_flash example_wash
      example_graph_score
    by (simp add: composite_of_def RISK_WEIGHTS_def severity_of_def explanations_of_def r)
qed

lemma example_new_alerts:
  "new_alerts pipeline_example (db_after no_sklearn 5 no_networkx fresh_engine pipeline_example) =
     [\<lparr>al_wallet_address = ''a'', al_alert_type = Flash_loan, al_severity = Critical,
       al_risk_score = 92,
       al_explanation = [ML_anomaly_high 100, Graph_connectivity 100, Flash_loan_activity 100,
         Wash_trading 60]\<rparr>]"
proof -
  let ?d = "db_after no_sklearn 5 no_networkx fresh_engine pipeline_example"
  have few: "card (participants (transactions pipeline_example)) < 5"
    by (simp add: pipeline_example_fields flash_example_wallets)
  have w: "wallet_profiles ?d = wallet_profiles pipeline_example"
    by (rule run_few(3) [OF few])
  have t: "transactions ?d = transactions pipeline_example"
    by (rule run_full_detection_parts(2))
  have g: "graph_after no_sklearn 5 no_networkx fresh_engine pipeline_example =
      build_graph flash_example"
    by (simp add: run_full_detection_parts(1) pipeline_example_fields)
  have "alert_of (build_graph flash_example) ?d q =
      alert_of (build_graph flash_example) pipeline_example q" for q
    by (rule alert_of_indep) (simp_all add: t w)
  then have same: "map (alert_of (build_graph flash_example) ?d) ps =
      map (alert_of (build_graph flash_example) pipeline_example) ps" for ps
    by simp
  obtain p where ps: "wallet_profiles pipeline_example = [p]" and a: "address p = ''a''"
    by (simp add: pipeline_example_def)
  show ?thesis
    unfolding new_alerts_run g w same ps
    by (simp add: alert_of_def a example_risk alert_type_of_def)
qed

theorem alerts_by_threshold_and_priority_witness:
  "map address (wallet_profiles
     (db_after no_sklearn 5 no_networkx fresh_engine pipeline_example)) = [''a''] \<and>
   composite_score (risk_of (graph_after no_sklearn 5 no_networkx fresh_engine pipeline_example)
     (db_after no_sklearn 5 no_networkx fresh_engine pipeline_example) ''a'') = 92 \<and>
   map al_wallet_address (new_alerts pipeline_example
     (db_after no_sklearn 5 no_networkx fresh_engine pipeline_example)) = [''a''] \<and>
   map al_alert_type (new_alerts pipeline_example
     (db_after no_sklearn 5 no_networkx fresh_engine pipeline_example)) = [Flash_loan] \<and>
   flash_score_of (db_after no_sklearn 5 no_networkx fresh_engine pipeline_example) ''a'' = 100"
proof -
  let ?d = "db_after no_sklearn 5 no_networkx fresh_engine pipeline_example"
  let ?g = "graph_after no_sklearn 5 no_networkx fresh_engine pipeline_example"
  have few: "card (participants (transactions pipeline_example)) < 5"
    by (simp add: pipeline_example_fields flash_example_wallets)
  have w: "wallet_profiles ?d = wallet_profiles pipeline_example"
    by (rule run_few(3) [OF few])
  have t: "transactions ?d = transactions pipeline_example"
    by (rule run_full_detection_parts(2))
  have g: "?g = build_graph flash_example"
    by (simp add: run_full_detection_parts(1) pipeline_example_fields)
  have r: "risk_of ?g ?d ''a'' = risk_of (build_graph flash_example) pipeline_example ''a''"
    unfolding g by (rule risk_of_indep) (simp_all add: t w)
  have f: "flash_score_of ?d ''a'' = 100"
    using example_flash by (simp add: flash_score_of_def t)
  from alerts_by_threshold_and_priority [of no_sklearn 5 no_networkx fresh_engine pipeline_example]
  show ?thesis
    by (simp add: w pipeline_example_fields r example_risk example_new_alerts f)
qed

lemma example_stored:
  "stored_score (db_after no_sklearn 5 no_networkx fresh_engine pipeline_example) ''a'' =
     stored_score (snd (compute_risk (build_graph flash_example) the_flash_loan_detector
       pipeline_example ''a'')) ''a''"
proof -
  have few: "card (participants (transactions pipeline_example)) < 5"
    by (simp add: pipeline_example_fields flash_example_wallets)
  have "''a'' \<in> address ` set (wallet_profiles pipeline_example)"
    by (simp add: pipeline_example_def)
  then show ?thesis
    by (simp add: run_few_scores(2) [OF few] pipeline_example_fields)
qed

theorem insufficient_data_skip_witness:
  "card (participants flash_example) < 5 \<and>
   train no_sklearn 5 fresh_engine flash_example = (Insufficient_data 2, fresh_engine) \<and>
   predict no_sklearn 5 fresh_engine flash_example = ([], fresh_engine) \<and>
   card (participants (transactions pipeline_example)) < 5 \<and>
   ml_training (fst (run_full_detection no_sklearn 5 no_networkx the_flash_loan_detector
     fresh_engine pipeline_example)) = Insufficient_data 2 \<and>
   alerts_generated (fst (run_full_detection no_sklearn 5 no_networkx the_flash_loan_detector
     fresh_engine pipeline_example)) = 1 \<and>
   map address (wallet_profiles pipeline_example) = [''a''] \<and>
   map_option rs_ml_anomaly_score
     (stored_score (db_after no_sklearn 5 no_networkx fresh_engine pipeline_example) ''a'')
     = Some 100 \<and>
   map al_wallet_address
     (alerts (db_after no_sklearn 5 no_networkx fresh_engine pipeline_example)) = [''a''] \<and>
   find (\<lambda>p. address p = ''b'') (wallet_profiles pipeline_example) = None \<and>
   ml_anomaly_score (risk_of (build_graph flash_example) pipeline_example ''b'') = 0"
proof -
  have n: "find (\<lambda>p. address p = ''b'') (wallet_profiles pipeline_example) = None"
    by (simp add: pipeline_example_def)
  obtain p where ps: "wallet_profiles pipeline_example = [p]" and a: "address p = ''a''"
    by (simp add: pipeline_example_def)
  have al: "alert_of (build_graph flash_example) pipeline_example p =
      [\<lparr>al_wallet_address = ''a'', al_alert_type = Flash_loan, al_severity = Critical,
        al_risk_score = 92,
        al_explanation = [ML_anomaly_high 100, Graph_connectivity 100, Flash_loan_activity 100,
          Wash_trading 60]\<rparr>]"
    by (simp add: alert_of_def a example_risk alert_type_of_def)
  from insufficient_data_skip [of flash_example no_sklearn 5 fresh_engine pipeline_example
      no_networkx "''b''" "build_graph flash_example"] n
  show ?thesis
    by (simp add: flash_example_wallets pipeline_example_fields ps a al example_stored
        compute_risk_stored example_ml)
qed

end
